theory Spec2Isabelle
  imports Main "HOL-Library.Char_ord" "HOL-Library.List_Lexorder" "HOL-Library.Sublist"
begin

section \<open>Python values\<close>

text \<open>
  The scraper works on decoded JSON: the response of the query service, the comment
  nodes in it and the records (Python dicts) built from them. A JSON value is modelled
  as the Python object \<open>r.json()\<close> returns: \<open>None\<close>, a \<open>bool\<close>, an \<open>int\<close>, a \<open>str\<close>,
  a \<open>list\<close> or a \<open>dict\<close> with string keys. JSON numbers with a fraction or an exponent
  (Python floats) are left out of the model. A string is a sequence of code points below
  256, one \<open>char\<close> each. A dict is an association list in which the first binding of a key
  is the one that counts.
\<close>

datatype json =
    JNull
  | JBool bool
  | JInt int
  | JStr string
  | JList "json list"
  | JObj "(string \<times> json) list"

type_synonym dict = "(string \<times> json) list"

text \<open>The exceptions the program can raise; \<open>SystemExit n\<close> is \<open>sys.exit(n)\<close>.\<close>

datatype py_exn =
    AttributeError
  | TypeError
  | KeyError
  | EOFError
  | OSError
  | RequestException
  | SystemExit int

text \<open>Truth value of an object, as \<open>if x:\<close>, \<open>not x\<close>, \<open>x or y\<close> and \<open>bool(x)\<close> test it.\<close>

fun truthy :: "json \<Rightarrow> bool" where
  "truthy JNull = False"
| "truthy (JBool b) = b"
| "truthy (JInt n) = (n \<noteq> 0)"
| "truthy (JStr s) = (s \<noteq> [])"
| "truthy (JList xs) = (xs \<noteq> [])"
| "truthy (JObj kvs) = (kvs \<noteq> [])"

text \<open>\<open>a or b\<close>\<close>

definition py_or :: "json \<Rightarrow> json \<Rightarrow> json" where
  "py_or a b = (if truthy a then a else b)"

text \<open>\<open>d.get(k, default)\<close> on a dict; \<open>d.get(k)\<close> is \<open>dict_get d k JNull\<close>.\<close>

definition dict_get :: "dict \<Rightarrow> string \<Rightarrow> json \<Rightarrow> json" where
  "dict_get d k dflt = (case map_of d k of None \<Rightarrow> dflt | Some v \<Rightarrow> v)"

text \<open>
  \<open>x.get(k, default)\<close> on an arbitrary object: only a dict has the method, every other
  JSON value raises \<open>AttributeError\<close>.
\<close>

fun py_get :: "json \<Rightarrow> string \<Rightarrow> json \<Rightarrow> py_exn + json" where
  "py_get (JObj d) k dflt = Inr (dict_get d k dflt)"
| "py_get _ k dflt = Inl AttributeError"

text \<open>
  \<open>x[k]\<close> with a string key: a dict without the key raises \<open>KeyError\<close>; a list, a string
  or a number cannot be indexed by a string and raises \<open>TypeError\<close>.
\<close>

fun py_subscript :: "json \<Rightarrow> string \<Rightarrow> py_exn + json" where
  "py_subscript (JObj d) k = (case map_of d k of None \<Rightarrow> Inl KeyError | Some v \<Rightarrow> Inr v)"
| "py_subscript _ k = Inl TypeError"

text \<open>
  \<open>for x in v\<close>: a list yields its elements, a string its characters, a dict its keys;
  \<open>None\<close>, a bool and an int are not iterable.
\<close>

fun py_iter :: "json \<Rightarrow> py_exn + json list" where
  "py_iter (JList xs) = Inr xs"
| "py_iter (JStr s) = Inr (map (\<lambda>c. JStr [c]) s)"
| "py_iter (JObj d) = Inr (map JStr (remdups (map fst d)))"
| "py_iter _ = Inl TypeError"

text \<open>
  \<open>v >= n\<close> for an int \<open>n\<close>: an int compares by value, a bool as 0 or 1; a string, a
  list, a dict and \<open>None\<close> raise \<open>TypeError\<close>.
\<close>

fun py_ge :: "json \<Rightarrow> int \<Rightarrow> py_exn + bool" where
  "py_ge (JInt a) n = Inr (n \<le> a)"
| "py_ge (JBool b) n = Inr (n \<le> (if b then 1 else 0))"
| "py_ge _ n = Inl TypeError"

section \<open>The query executor\<close>

text \<open>
  The query service is the environment of the program. It is a function from the
  requests issued so far (the \<open>variables\<close> dict of each, the last one being the current
  request) to what \<open>requests.get\<close> does: it raises, or returns a response with a status
  code and a body, \<open>None\<close> when the body is not JSON. The headers are the same in every
  request and are not part of the model.
\<close>

datatype response = NoResponse | Response int "json option"

type_synonym server = "dict list \<Rightarrow> response"

definition graphql_request :: "server \<Rightarrow> dict list \<Rightarrow> py_exn + json" where
  "graphql_request srv reqs =
     (case srv reqs of
        NoResponse \<Rightarrow> Inl RequestException
      | Response status_code body \<Rightarrow>
          if status_code \<noteq> 200 then Inl (SystemExit 1)
          else (case body of None \<Rightarrow> Inl (SystemExit 1) | Some data \<Rightarrow> Inr data))"

section \<open>The record extractor\<close>

definition parse_reply :: "json \<Rightarrow> py_exn + json" where
  "parse_reply e =
     (case py_get e ''node'' (JObj []) of Inl x \<Rightarrow> Inl x | Inr rnode \<Rightarrow>
     (case py_get rnode ''owner'' (JObj []) of Inl x \<Rightarrow> Inl x | Inr rowner \<Rightarrow>
     (case py_get rnode ''id'' JNull of Inl x \<Rightarrow> Inl x | Inr rid \<Rightarrow>
     (case py_get rowner ''username'' JNull of Inl x \<Rightarrow> Inl x | Inr rusername \<Rightarrow>
     (case py_get rnode ''text'' JNull of Inl x \<Rightarrow> Inl x | Inr rtext \<Rightarrow>
     (case py_get rnode ''like_count'' JNull of Inl x \<Rightarrow> Inl x | Inr rlikes \<Rightarrow>
     (case py_get rnode ''created_at'' JNull of Inl x \<Rightarrow> Inl x | Inr rcreated \<Rightarrow>
        Inr (JObj [(''id'', rid), (''username'', rusername), (''text'', rtext),
                   (''like_count'', rlikes), (''created_at'', rcreated)]))))))))"

fun parse_replies :: "json list \<Rightarrow> json list \<Rightarrow> py_exn + json list" where
  "parse_replies [] replies = Inr replies"
| "parse_replies (e # es) replies =
     (case parse_reply e of Inl x \<Rightarrow> Inl x | Inr r \<Rightarrow> parse_replies es (replies @ [r]))"

definition parse_comment_node :: "json \<Rightarrow> bool \<Rightarrow> py_exn + dict" where
  "parse_comment_node node include_replies =
     (case py_get node ''owner'' (JObj []) of Inl x \<Rightarrow> Inl x | Inr owner \<Rightarrow>
     (case py_get node ''id'' JNull of Inl x \<Rightarrow> Inl x | Inr cid \<Rightarrow>
     (case py_get owner ''username'' JNull of Inl x \<Rightarrow> Inl x | Inr username \<Rightarrow>
     (case py_get node ''text'' JNull of Inl x \<Rightarrow> Inl x | Inr text \<Rightarrow>
     (case py_get node ''like_count'' JNull of Inl x \<Rightarrow> Inl x | Inr likes \<Rightarrow>
     (case py_get node ''created_at'' JNull of Inl x \<Rightarrow> Inl x | Inr created \<Rightarrow>
        (let item = [(''id'', cid), (''username'', username), (''text'', text),
                     (''like_count'', likes), (''created_at'', created)]
         in if include_replies then
              (case py_get node ''edge_threaded_comments'' (JObj []) of Inl x \<Rightarrow> Inl x
               | Inr replies_info \<Rightarrow>
              (case py_get replies_info ''edges'' (JList []) of Inl x \<Rightarrow> Inl x
               | Inr reply_edges \<Rightarrow>
              (case py_iter reply_edges of Inl x \<Rightarrow> Inl x | Inr es \<Rightarrow>
              (case parse_replies es [] of Inl x \<Rightarrow> Inl x
               | Inr replies \<Rightarrow> Inr (item @ [(''replies'', JList replies)])))))
            else Inr item)))))))"

section \<open>The page iterator\<close>

text \<open>\<open>max_comments and len(results) >= max_comments\<close>: \<open>None\<close> and 0 are both false.\<close>

definition cap_reached :: "int option \<Rightarrow> dict list \<Rightarrow> bool" where
  "cap_reached max_comments results =
     (case max_comments of
        None \<Rightarrow> False
      | Some m \<Rightarrow> m \<noteq> 0 \<and> m \<le> int (length results))"

text \<open>The test \<open>(item.get("like_count") or 0) >= min_likes\<close>.\<close>

definition meets_min_likes :: "dict \<Rightarrow> int \<Rightarrow> py_exn + bool" where
  "meets_min_likes item min_likes =
     py_ge (py_or (dict_get item ''like_count'' JNull) (JInt 0)) min_likes"

text \<open>
  The \<open>for edge in edges\<close> loop. An exception leaves with the records appended so far
  (the list is updated in place); otherwise the loop returns the records and whether it
  was left by \<open>break\<close>.
\<close>

fun for_edges ::
  "bool \<Rightarrow> int option \<Rightarrow> int \<Rightarrow> json list \<Rightarrow> dict list \<Rightarrow> (py_exn \<times> dict list) + (dict list \<times> bool)"
where
  "for_edges include_replies max_comments min_likes [] results = Inr (results, False)"
| "for_edges include_replies max_comments min_likes (edge # edges) results =
     (case py_get edge ''node'' (JObj []) of Inl x \<Rightarrow> Inl (x, results) | Inr node \<Rightarrow>
     (case parse_comment_node node include_replies of Inl x \<Rightarrow> Inl (x, results)
      | Inr item \<Rightarrow>
     (case meets_min_likes item min_likes of
        Inl x \<Rightarrow> Inl (x, results)
      | Inr keep \<Rightarrow>
          (let results' = (if keep then results @ [item] else results)
           in if cap_reached max_comments results' then Inr (results', True)
              else for_edges include_replies max_comments min_likes edges results'))))"

text \<open>
  The body of the \<open>try\<close> block for one page: it raises, leaves the \<open>while\<close> loop by
  \<open>break\<close> (no \<open>shortcode_media\<close>), or completes with the records and \<open>edge_info\<close>. The
  assignment \<open>has_next = False\<close> before the inner \<open>break\<close> is overwritten right after the
  block and is not kept.
\<close>

datatype page_result =
    Raised py_exn "dict list"
  | Break "dict list"
  | Completed "dict list" json

definition try_page :: "json \<Rightarrow> bool \<Rightarrow> int option \<Rightarrow> int \<Rightarrow> dict list \<Rightarrow> page_result" where
  "try_page data include_replies max_comments min_likes results =
     (case py_get data ''data'' (JObj []) of Inl x \<Rightarrow> Raised x results | Inr d \<Rightarrow>
     (case py_get d ''shortcode_media'' JNull of Inl x \<Rightarrow> Raised x results | Inr media \<Rightarrow>
        if \<not> truthy media then Break results
        else
          (case py_subscript media ''edge_media_to_parent_comment'' of
             Inl x \<Rightarrow> Raised x results
           | Inr edge_info \<Rightarrow>
          (case py_get edge_info ''edges'' (JList []) of Inl x \<Rightarrow> Raised x results
           | Inr edges \<Rightarrow>
          (case py_iter edges of Inl x \<Rightarrow> Raised x results | Inr es \<Rightarrow>
          (case for_edges include_replies max_comments min_likes es results of
             Inl (x, results') \<Rightarrow> Raised x results'
           | Inr (results', left_by_break) \<Rightarrow> Completed results' edge_info))))))"

text \<open>
  One iteration of the \<open>while has_next\<close> loop. The state is the records, the cursor and
  the requests issued so far; the iteration either ends the function (with an exception
  or the records) or continues with a new state.
\<close>

record fetch_params =
  shortcode :: string
  per_page :: int
  include_replies :: bool
  max_comments :: "int option"
  min_likes :: int

type_synonym fetch_state = "dict list \<times> json \<times> dict list"

datatype step_result =
    Return "dict list" "py_exn + dict list"
  | Continue fetch_state

definition request_variables :: "fetch_params \<Rightarrow> json \<Rightarrow> dict" where
  "request_variables p cursor =
     [(''shortcode'', JStr (shortcode p)), (''first'', JInt (per_page p))]
     @ (if truthy cursor then [(''after'', cursor)] else [])"

definition fetch_step :: "server \<Rightarrow> fetch_params \<Rightarrow> fetch_state \<Rightarrow> step_result" where
  "fetch_step srv p st =
     (case st of (results, cursor, reqs) \<Rightarrow>
     (let reqs' = reqs @ [request_variables p cursor] in
     (case graphql_request srv reqs' of Inl x \<Rightarrow> Return reqs' (Inl x) | Inr data \<Rightarrow>
     (case try_page data (include_replies p) (max_comments p) (min_likes p) results of
        Raised x results' \<Rightarrow>
          if x = KeyError then Return reqs' (Inr results') else Return reqs' (Inl x)
      | Break results' \<Rightarrow> Return reqs' (Inr results')
      | Completed results' edge_info \<Rightarrow>
          (case py_get edge_info ''page_info'' (JObj []) of Inl x \<Rightarrow> Return reqs' (Inl x)
           | Inr page_info \<Rightarrow>
          (case py_get page_info ''has_next_page'' JNull of Inl x \<Rightarrow> Return reqs' (Inl x)
           | Inr hnp \<Rightarrow>
          (case py_get page_info ''end_cursor'' JNull of Inl x \<Rightarrow> Return reqs' (Inl x)
           | Inr cursor' \<Rightarrow>
               if truthy hnp \<and> \<not> cap_reached (max_comments p) results'
               then Continue (results', cursor', reqs')
               else Return reqs' (Inr results'))))))))"

text \<open>
  The \<open>while\<close> loop. The service may announce a next page for ever, so the loop need
  not end: the result is \<open>None\<close> then. A result is the list of requests issued and
  either the exception that left the function or the records returned.
\<close>

partial_function (option) fetch_loop ::
  "server \<Rightarrow> fetch_params \<Rightarrow> fetch_state \<Rightarrow> (dict list \<times> (py_exn + dict list)) option"
where
  "fetch_loop srv p st =
     (case fetch_step srv p st of
        Return reqs r \<Rightarrow> Some (reqs, r)
      | Continue st' \<Rightarrow> fetch_loop srv p st')"

declare fetch_loop.simps [code]

definition fetch_parent_comments ::
  "server \<Rightarrow> fetch_params \<Rightarrow> (dict list \<times> (py_exn + dict list)) option" where
  "fetch_parent_comments srv p = fetch_loop srv p ([], JNull, [])"

section \<open>Filtering and deduplication\<close>

text \<open>
  Membership in a Python \<open>set\<close> hashes the value and compares with \<open>==\<close>. A list and a
  dict are not hashable. Among the other JSON values \<open>==\<close> holds between equal values of
  one type and between a bool and the int 0 or 1 it stands for, so a set is modelled by
  the set of the \<open>hash_key\<close>s of its members.
\<close>

fun hashable :: "json \<Rightarrow> bool" where
  "hashable (JList xs) = False"
| "hashable (JObj d) = False"
| "hashable _ = True"

fun hash_key :: "json \<Rightarrow> json" where
  "hash_key (JBool b) = JInt (if b then 1 else 0)"
| "hash_key v = v"

fun to_usernames_loop :: "dict list \<Rightarrow> json set \<Rightarrow> json list \<Rightarrow> py_exn + json list" where
  "to_usernames_loop [] seen out = Inr out"
| "to_usernames_loop (c # comments) seen out =
     (let u = dict_get c ''username'' JNull
      in if \<not> truthy u then to_usernames_loop comments seen out
         else if \<not> hashable u then Inl TypeError
         else if hash_key u \<in> seen then to_usernames_loop comments seen out
         else to_usernames_loop comments (insert (hash_key u) seen) (out @ [u]))"

definition to_usernames :: "dict list \<Rightarrow> py_exn + json list" where
  "to_usernames comments = to_usernames_loop comments {} []"

fun usernames_with_duplicates :: "dict list \<Rightarrow> json list" where
  "usernames_with_duplicates [] = []"
| "usernames_with_duplicates (c # comments) =
     (let u = dict_get c ''username'' JNull
      in if truthy u then u # usernames_with_duplicates comments
         else usernames_with_duplicates comments)"

fun dedupe_loop :: "string \<Rightarrow> dict list \<Rightarrow> json set \<Rightarrow> dict list \<Rightarrow> py_exn + dict list" where
  "dedupe_loop key [] seen result = Inr result"
| "dedupe_loop key (it # items) seen result =
     (let k = dict_get it key JNull
      in if k = JNull then dedupe_loop key items seen result
         else if \<not> hashable k then Inl TypeError
         else if hash_key k \<in> seen then dedupe_loop key items seen result
         else dedupe_loop key items (insert (hash_key k) seen) (result @ [it]))"

definition dedupe_by_key :: "dict list \<Rightarrow> string \<Rightarrow> py_exn + dict list" where
  "dedupe_by_key items key = dedupe_loop key items {} []"

section \<open>Strings\<close>

text \<open>\<open>str.lower\<close> on code points below 256: A to Z and the accented capitals.\<close>

definition lower_char :: "char \<Rightarrow> char" where
  "lower_char c =
     (let n = (of_char c :: nat)
      in if (65 \<le> n \<and> n \<le> 90) \<or> (192 \<le> n \<and> n \<le> 222 \<and> n \<noteq> 215)
         then char_of (n + 32) else c)"

definition str_lower :: "string \<Rightarrow> string" where
  "str_lower s = map lower_char s"

text \<open>The characters \<open>str.strip()\<close> removes, among the code points below 256.\<close>

definition is_space :: "char \<Rightarrow> bool" where
  "is_space c =
     (let n = (of_char c :: nat)
      in (9 \<le> n \<and> n \<le> 13) \<or> (28 \<le> n \<and> n \<le> 32) \<or> n = 133 \<or> n = 160)"

definition str_strip :: "string \<Rightarrow> string" where
  "str_strip s = rev (dropWhile is_space (rev (dropWhile is_space s)))"

text \<open>\<open>s.replace("\n", " ")\<close>\<close>

definition replace_newline :: "string \<Rightarrow> string" where
  "replace_newline s = map (\<lambda>c. if c = CHR 0x0A then CHR 0x20 else c) s"

text \<open>\<open>s.lower()\<close> on an arbitrary object: only a string has the method.\<close>

fun py_lower :: "json \<Rightarrow> py_exn + string" where
  "py_lower (JStr s) = Inr (str_lower s)"
| "py_lower _ = Inl AttributeError"

text \<open>
  \<open>xs.sort(key=lambda s: s.lower())\<close>: the keys of all elements are computed first, then
  the list is sorted by key, equal keys keeping their order.
\<close>

fun sort_keys :: "json list \<Rightarrow> py_exn + string list" where
  "sort_keys [] = Inr []"
| "sort_keys (u # us) =
     (case py_lower u of Inl x \<Rightarrow> Inl x | Inr k \<Rightarrow>
     (case sort_keys us of Inl x \<Rightarrow> Inl x | Inr ks \<Rightarrow> Inr (k # ks)))"

definition sort_by_lower :: "json list \<Rightarrow> py_exn + json list" where
  "sort_by_lower us =
     (case sort_keys us of Inl x \<Rightarrow> Inl x
      | Inr ks \<Rightarrow> Inr (map snd (sort_key fst (zip ks us))))"

section \<open>The output writer\<close>

text \<open>
  What is written is modelled up to the formatting done by the \<open>json\<close> and \<open>csv\<close> modules
  and by f-strings: a JSON file is the value dumped, a CSV file the rows passed to
  \<open>writerow\<close>, a text file the values interpolated into each line.
\<close>

datatype written =
    JsonFile json
  | CsvFile "json list list"
  | TxtFile "json list list"

text \<open>\<open>(c.get("text") or "").replace("\n", " ").strip()\<close>\<close>

fun text_cell :: "json \<Rightarrow> py_exn + string" where
  "text_cell (JStr s) = Inr (str_strip (replace_newline s))"
| "text_cell _ = Inl AttributeError"

definition reply_count :: "dict \<Rightarrow> int" where
  "reply_count c = (case dict_get c ''replies'' JNull of JList rs \<Rightarrow> int (length rs) | _ \<Rightarrow> 0)"

definition csv_row :: "dict \<Rightarrow> py_exn + json list" where
  "csv_row c =
     (case text_cell (py_or (dict_get c ''text'' JNull) (JStr [])) of
        Inl x \<Rightarrow> Inl x
      | Inr t \<Rightarrow>
          Inr [dict_get c ''id'' JNull, dict_get c ''username'' JNull, JStr t,
               dict_get c ''like_count'' JNull, dict_get c ''created_at'' JNull,
               JInt (reply_count c)])"

fun csv_rows :: "dict list \<Rightarrow> json list list \<Rightarrow> py_exn + json list list" where
  "csv_rows [] rows = Inr rows"
| "csv_rows (c # comments) rows =
     (case csv_row c of Inl x \<Rightarrow> Inl x | Inr row \<Rightarrow> csv_rows comments (rows @ [row]))"

definition csv_header :: "json list" where
  "csv_header = [JStr ''id'', JStr ''username'', JStr ''text'', JStr ''like_count'',
                 JStr ''created_at'', JStr ''reply_count'']"

text \<open>
  The file system is in one of three states: every operation succeeds, \<open>os.makedirs\<close>
  raises \<open>OSError\<close>, or \<open>os.makedirs\<close> succeeds and \<open>open\<close> raises \<open>OSError\<close>. A failure
  while writing to the open file is not modelled.
\<close>

datatype filesystem = Writable | MakedirsFails | OpenFails

text \<open>
  \<open>write_output\<close>: the directory is created first; in usernames mode the payload is
  determined before the file is opened; in detailed mode the file is opened before the
  rows are computed.
\<close>

definition write_output ::
  "filesystem \<Rightarrow> string \<Rightarrow> string \<Rightarrow> dict list \<Rightarrow> json list option \<Rightarrow> py_exn + written"
where
  "write_output fs data_format file_format comments usernames =
     (if fs = MakedirsFails then Inl OSError
      else if data_format = ''usernames'' then
        (case (case usernames of Some us \<Rightarrow> Inr us | None \<Rightarrow> to_usernames comments) of
           Inl x \<Rightarrow> Inl x
         | Inr payload \<Rightarrow>
             if fs = OpenFails then Inl OSError
             else if file_format = ''json'' then Inr (JsonFile (JList payload))
             else if file_format = ''csv''
             then Inr (CsvFile ([JStr ''username''] # map (\<lambda>u. [u]) payload))
             else Inr (TxtFile (map (\<lambda>u. [u]) payload)))
      else if fs = OpenFails then Inl OSError
      else if file_format = ''json'' then Inr (JsonFile (JList (map JObj comments)))
      else if file_format = ''csv'' then
        (case csv_rows comments [csv_header] of
           Inl x \<Rightarrow> Inl x
         | Inr rows \<Rightarrow> Inr (CsvFile rows))
      else Inr (TxtFile (map (\<lambda>c. [dict_get c ''username'' JNull, dict_get c ''text'' JNull,
                                     dict_get c ''like_count'' JNull]) comments)))"

section \<open>The command line program\<close>

text \<open>
  \<open>re.search(r"instagram\.com/(reel|p)/([^/?#]+)", url)\<close>: the leftmost position at which
  the pattern matches; the second group is the longest run of characters other than
  \<open>/\<close>, \<open>?\<close> and \<open>#\<close>, and is not empty.
\<close>

definition strip_prefix :: "string \<Rightarrow> string \<Rightarrow> string option" where
  "strip_prefix pre s = (if take (length pre) s = pre then Some (drop (length pre) s) else None)"

definition match_media :: "string \<Rightarrow> (string \<times> string) option" where
  "match_media s =
     (case strip_prefix ''instagram.com/'' s of
        None \<Rightarrow> None
      | Some r \<Rightarrow>
          (case (case strip_prefix ''reel/'' r of
                   Some t \<Rightarrow> Some (''reel'', t)
                 | None \<Rightarrow> (case strip_prefix ''p/'' r of
                               Some t \<Rightarrow> Some (''p'', t)
                             | None \<Rightarrow> None)) of
             None \<Rightarrow> None
           | Some (media_type, t) \<Rightarrow>
               (let code = takeWhile (\<lambda>c. c \<notin> set ''/?#'') t
                in if code = [] then None else Some (media_type, code))))"

fun extract_media :: "string \<Rightarrow> (string \<times> string) option" where
  "extract_media [] = None"
| "extract_media (c # cs) =
     (case match_media (c # cs) of Some m \<Rightarrow> Some m | None \<Rightarrow> extract_media cs)"

record environ =
  SESSIONID :: "string option"
  DS_USER_ID :: "string option"
  CSRFTOKEN :: "string option"
  MID :: "string option"

definition validate_env :: "environ \<Rightarrow> py_exn + unit" where
  "validate_env env =
     (let missing = map fst (filter (\<lambda>(name, val). val = None \<or> val = Some [])
                       [(''SESSIONID'', SESSIONID env), (''DS_USER_ID'', DS_USER_ID env),
                        (''CSRFTOKEN'', CSRFTOKEN env), (''MID'', MID env)])
      in if missing \<noteq> [] then Inl (SystemExit 2) else Inr ())"

text \<open>The parsed command line; \<open>arg_url\<close> is \<open>None\<close> when \<open>--url\<close> is not given.\<close>

record args =
  arg_url :: "string option"
  arg_data_format :: string
  arg_file_format :: string
  arg_per_page :: int
  arg_max_comments :: "int option"
  arg_min_likes :: int
  arg_include_replies :: bool
  arg_dedupe :: bool

text \<open>The deduplication of the comments in \<open>main\<close>, for the detailed data format.\<close>

definition main_comments :: "args \<Rightarrow> dict list \<Rightarrow> py_exn + dict list" where
  "main_comments a comments =
     (if arg_data_format a = ''detailed'' then
        (if arg_dedupe a then dedupe_by_key comments ''id'' else Inr comments)
      else Inr comments)"

text \<open>The \<open>usernames_payload\<close> of \<open>main\<close>.\<close>

definition main_usernames_payload :: "args \<Rightarrow> dict list \<Rightarrow> py_exn + json list option" where
  "main_usernames_payload a comments =
     (if arg_data_format a = ''usernames'' then
        (case (if arg_dedupe a then to_usernames comments
               else Inr (usernames_with_duplicates comments)) of
           Inl x \<Rightarrow> Inl x
         | Inr us \<Rightarrow> (case sort_by_lower us of Inl x \<Rightarrow> Inl x | Inr sorted_us \<Rightarrow> Inr (Some sorted_us)))
      else Inr None)"

text \<open>
  How a run ends: \<open>sys.exit\<close> with a status, an exception nothing catches, or the
  output saved together with the number of records reported.
\<close>

datatype outcome =
    Exit int
  | Uncaught py_exn
  | Saved written nat

definition leave :: "py_exn \<Rightarrow> outcome" where
  "leave x = (case x of SystemExit n \<Rightarrow> Exit n | _ \<Rightarrow> Uncaught x)"

text \<open>
  The URL \<open>main\<close> works on: \<open>args.url\<close>, or when that is \<open>None\<close> or empty the stripped
  line \<open>input()\<close> reads. \<open>stdin\<close> is that line, \<open>None\<close> at end of file.
\<close>

definition main_url :: "args \<Rightarrow> string option \<Rightarrow> py_exn + string" where
  "main_url a stdin =
     (case (case arg_url a of None \<Rightarrow> None
            | Some u \<Rightarrow> if u = [] then None else Some u) of
        Some u \<Rightarrow> Inr u
      | None \<Rightarrow> (case stdin of None \<Rightarrow> Inl EOFError
                 | Some line \<Rightarrow> Inr (str_strip line)))"

text \<open>The arguments \<open>main\<close> passes to \<open>fetch_parent_comments\<close>.\<close>

definition main_fetch_params :: "args \<Rightarrow> string \<Rightarrow> fetch_params" where
  "main_fetch_params a code =
     \<lparr>shortcode = code, per_page = max 1 (arg_per_page a),
      include_replies = arg_include_replies a, max_comments = arg_max_comments a,
      min_likes = max 0 (arg_min_likes a)\<rparr>"

text \<open>
  \<open>main\<close>, from the parsed arguments on. The result is \<open>None\<close> when the fetch loop does
  not end.
\<close>

definition main ::
  "args \<Rightarrow> environ \<Rightarrow> string option \<Rightarrow> server \<Rightarrow> filesystem \<Rightarrow> outcome option" where
  "main a env stdin srv fs =
     (case main_url a stdin of
        Inl x \<Rightarrow> Some (leave x)
      | Inr url \<Rightarrow>
     (case extract_media url of
        None \<Rightarrow> Some (Exit 2)
      | Some (media_type, code) \<Rightarrow>
     (case validate_env env of
        Inl x \<Rightarrow> Some (leave x)
      | Inr _ \<Rightarrow>
     (case fetch_parent_comments srv (main_fetch_params a code) of
        None \<Rightarrow> None
      | Some (reqs, Inl x) \<Rightarrow> Some (leave x)
      | Some (reqs, Inr fetched) \<Rightarrow>
     (case main_comments a fetched of
        Inl x \<Rightarrow> Some (leave x)
      | Inr comments \<Rightarrow>
     (case main_usernames_payload a comments of
        Inl x \<Rightarrow> Some (leave x)
      | Inr usernames_payload \<Rightarrow>
     (case write_output fs (arg_data_format a) (arg_file_format a) comments
             usernames_payload of
        Inl x \<Rightarrow> if x = OSError then Some (Exit 1) else Some (leave x)
      | Inr w \<Rightarrow>
          Some (Saved w (case usernames_payload of
                           Some us \<Rightarrow> if arg_data_format a = ''usernames'' then length us
                                      else length comments
                         | None \<Rightarrow> length comments)))))))))"

section \<open>Example inputs\<close>

text \<open>A comment node of the query service and the record extracted from it.\<close>

definition comment_node :: "string \<Rightarrow> string \<Rightarrow> json \<Rightarrow> json" where
  "comment_node i u l =
     JObj [(''id'', JStr i), (''owner'', JObj [(''username'', JStr u)]), (''text'', JStr ''hi''),
           (''like_count'', l), (''created_at'', JInt 1700000000)]"

definition comment_item :: "string \<Rightarrow> string \<Rightarrow> json \<Rightarrow> dict" where
  "comment_item i u l =
     [(''id'', JStr i), (''username'', JStr u), (''text'', JStr ''hi''),
      (''like_count'', l), (''created_at'', JInt 1700000000)]"

text \<open>A response body of the expected shape, holding the given nodes.\<close>

definition edge :: "json \<Rightarrow> json" where
  "edge n = JObj [(''node'', n)]"

definition page_info_of :: "bool \<Rightarrow> dict" where
  "page_info_of has_next = [(''has_next_page'', JBool has_next), (''end_cursor'', JStr ''QVFE'')]"

definition edge_info_of :: "json list \<Rightarrow> bool \<Rightarrow> dict" where
  "edge_info_of nodes has_next =
     [(''edges'', JList (map edge nodes)), (''page_info'', JObj (page_info_of has_next))]"

definition media_of :: "json list \<Rightarrow> bool \<Rightarrow> dict" where
  "media_of nodes has_next =
     [(''edge_media_to_parent_comment'', JObj (edge_info_of nodes has_next))]"

definition page_body :: "json list \<Rightarrow> bool \<Rightarrow> dict" where
  "page_body nodes has_next =
     [(''data'', JObj [(''shortcode_media'', JObj (media_of nodes has_next))])]"

definition page :: "json list \<Rightarrow> bool \<Rightarrow> json" where
  "page nodes has_next = JObj (page_body nodes has_next)"

definition params :: "int option \<Rightarrow> int \<Rightarrow> fetch_params" where
  "params m l = \<lparr>shortcode = ''Cx1'', per_page = 50, include_replies = False,
                 max_comments = m, min_likes = l\<rparr>"

definition first_request :: dict where
  "first_request = [(''shortcode'', JStr ''Cx1''), (''first'', JInt 50)]"


text \<open>A service that answers every request with the same page.\<close>

definition same_page :: "json \<Rightarrow> server" where
  "same_page body = (\<lambda>reqs. Response 200 (Some body))"

definition two_nodes :: "json list" where
  "two_nodes = [comment_node ''1'' ''ann'' (JInt 3), comment_node ''2'' ''bob'' JNull]"

definition eight_nodes :: "json list" where
  "eight_nodes =
     [comment_node ''1'' ''ann'' (JInt 3), comment_node ''2'' ''bob'' (JInt 4),
      comment_node ''3'' ''cy'' (JInt 5), comment_node ''4'' ''dee'' (JInt 6),
      comment_node ''5'' ''eve'' (JInt 7), comment_node ''6'' ''fay'' (JInt 8),
      comment_node ''7'' ''gus'' (JInt 9), comment_node ''8'' ''hal'' (JInt 10)]"

definition five_items :: "dict list" where
  "five_items =
     [comment_item ''1'' ''ann'' (JInt 3), comment_item ''2'' ''bob'' (JInt 4),
      comment_item ''3'' ''cy'' (JInt 5), comment_item ''4'' ''dee'' (JInt 6),
      comment_item ''5'' ''eve'' (JInt 7)]"

text \<open>Three nodes below the threshold 2, then three at or above it.\<close>

definition mixed_nodes :: "json list" where
  "mixed_nodes =
     [comment_node ''1'' ''ann'' (JInt 1), comment_node ''2'' ''bob'' JNull,
      comment_node ''3'' ''cy'' (JInt 0), comment_node ''4'' ''dee'' (JInt 2),
      comment_node ''5'' ''eve'' (JInt 7), comment_node ''6'' ''fay'' (JInt 9)]"

text \<open>Parsed command lines and records with a repeated and with a missing id.\<close>

definition example_args :: "string \<Rightarrow> bool \<Rightarrow> args" where
  "example_args fmt dd =
     \<lparr>arg_url = Some ''https://www.instagram.com/p/Cx1/'', arg_data_format = fmt,
      arg_file_format = ''csv'', arg_per_page = 50, arg_max_comments = None,
      arg_min_likes = 0, arg_include_replies = False, arg_dedupe = dd\<rparr>"

definition repeated_items :: "dict list" where
  "repeated_items =
     [comment_item ''1'' ''ann'' (JInt 3), comment_item ''2'' ''bob'' (JInt 4),
      comment_item ''1'' ''zed'' (JInt 9)]"

definition no_id_item :: dict where
  "no_id_item = [(''id'', JNull), (''username'', JStr ''cy''), (''text'', JStr ''hey''),
                 (''like_count'', JInt 1), (''created_at'', JNull)]"


text \<open>Records for the CSV writer, and the rows written for them.\<close>

definition newline_item :: dict where
  "newline_item =
     [(''id'', JStr ''9''), (''username'', JStr ''ann''),
      (''text'', JStr (''hello'' @ [CHR 0x0A] @ ''world '')),
      (''like_count'', JInt 2), (''created_at'', JInt 1700000000),
      (''replies'', JList [JObj [(''id'', JStr ''10'')], JObj [(''id'', JStr ''11'')]])]"

definition no_text_item :: dict where
  "no_text_item = [(''id'', JStr ''12''), (''username'', JStr ''bob''), (''text'', JNull),
                   (''like_count'', JNull), (''created_at'', JNull)]"

definition example_rows :: "json list list" where
  "example_rows =
     [csv_header,
      [JStr ''9'', JStr ''ann'', JStr ''hello world'', JInt 2, JInt 1700000000, JInt 2],
      [JStr ''12'', JStr ''bob'', JStr [], JNull, JNull, JInt 0]]"

text \<open>An environment with all four credentials, and a service that fails.\<close>

definition example_env :: environ where
  "example_env = \<lparr>SESSIONID = Some ''s1'', DS_USER_ID = Some ''42'',
                   CSRFTOKEN = Some ''tok'', MID = Some ''m1''\<rparr>"

definition failing_service :: server where
  "failing_service = (\<lambda>reqs. Response 500 None)"

text \<open>A command line with a URL of another site, and an environment lacking a credential.\<close>

definition bad_url_args :: args where
  "bad_url_args = (example_args ''detailed'' True)\<lparr>arg_url := Some ''https://example.com/p/Cx1/''\<rparr>"

definition env_without_mid :: environ where
  "env_without_mid = example_env\<lparr>MID := None\<rparr>"

section \<open>Predicates of the statements and proofs\<close>

text \<open>Every record of a list passed the minimum-likes test.\<close>

definition likes_inv :: "int \<Rightarrow> dict list \<Rightarrow> bool" where
  "likes_inv ml rs = (\<forall>c\<in>set rs. meets_min_likes c ml = Inr True)"

text \<open>
  Two records have the same key when their values under it are equal in Python. What
  \<open>dedupe_by_key\<close> keeps, as a function of the keys seen: the records with a key that is
  not \<open>None\<close> and was not seen before.
\<close>

definition same_key :: "string \<Rightarrow> dict \<Rightarrow> dict \<Rightarrow> bool" where
  "same_key key a b = (hash_key (dict_get a key JNull) = hash_key (dict_get b key JNull))"

fun keep_firsts :: "string \<Rightarrow> json set \<Rightarrow> dict list \<Rightarrow> dict list" where
  "keep_firsts key seen [] = []"
| "keep_firsts key seen (it # items) =
     (if dict_get it key JNull = JNull \<or> hash_key (dict_get it key JNull) \<in> seen
      then keep_firsts key seen items
      else it # keep_firsts key (insert (hash_key (dict_get it key JNull)) seen) items)"

text \<open>
  The record of an edge: what \<open>edge.get("node", {})\<close> and \<open>parse_comment_node\<close> yield for
  it, \<open>None\<close> when one of them raises.
\<close>

definition edge_item :: "bool \<Rightarrow> json \<Rightarrow> dict option" where
  "edge_item ir e =
     (case py_get e ''node'' (JObj []) of
        Inl x \<Rightarrow> None
      | Inr node \<Rightarrow> (case parse_comment_node node ir of Inl x \<Rightarrow> None | Inr item \<Rightarrow> Some item))"

text \<open>The minimum-likes test as a predicate: the test is evaluated and is true.\<close>

definition passes :: "int \<Rightarrow> dict \<Rightarrow> bool" where
  "passes ml c = (meets_min_likes c ml = Inr True)"

text \<open>
  The edges the page iterator iterates over for a response body, none when the
  \<open>for\<close> loop is not reached; the edges of the response to the last of a list of
  requests; the edges of the responses to all of them, in the order of the requests.
\<close>

definition page_edges :: "json \<Rightarrow> json list" where
  "page_edges data =
     (case py_get data ''data'' (JObj []) of Inl x \<Rightarrow> [] | Inr d \<Rightarrow>
     (case py_get d ''shortcode_media'' JNull of Inl x \<Rightarrow> [] | Inr media \<Rightarrow>
        if \<not> truthy media then []
        else
          (case py_subscript media ''edge_media_to_parent_comment'' of Inl x \<Rightarrow> []
           | Inr edge_info \<Rightarrow>
          (case py_get edge_info ''edges'' (JList []) of Inl x \<Rightarrow> []
           | Inr edges \<Rightarrow>
          (case py_iter edges of Inl x \<Rightarrow> [] | Inr es \<Rightarrow> es)))))"

definition response_edges :: "server \<Rightarrow> dict list \<Rightarrow> json list" where
  "response_edges srv reqs =
     (case graphql_request srv reqs of Inl x \<Rightarrow> [] | Inr data \<Rightarrow> page_edges data)"

definition delivered_edges :: "server \<Rightarrow> dict list \<Rightarrow> json list" where
  "delivered_edges srv reqs =
     concat (map (\<lambda>i. response_edges srv (take (Suc i) reqs)) [0..<length reqs])"

text \<open>
  The invariant of the fetch loop for a maximum \<open>m\<close>: the records collected are those
  passing the test among the records of all edges delivered, and are fewer than \<open>m\<close>.
  For a returned list: it holds the records passing the test among those of a prefix of
  the edges delivered, the whole of them when the list is shorter than \<open>m\<close>.
\<close>

definition cap_inv :: "server \<Rightarrow> fetch_params \<Rightarrow> int \<Rightarrow> fetch_state \<Rightarrow> bool" where
  "cap_inv srv p m st =
     (case st of (rs, cursor, reqs) \<Rightarrow>
        int (length rs) < m
        \<and> (\<exists>items. map (edge_item (include_replies p)) (delivered_edges srv reqs) = map Some items
              \<and> rs = filter (passes (min_likes p)) items))"

definition cap_post :: "server \<Rightarrow> fetch_params \<Rightarrow> int \<Rightarrow> dict list \<Rightarrow> dict list \<Rightarrow> bool" where
  "cap_post srv p m reqs out =
     (\<exists>k items. k \<le> length (delivered_edges srv reqs)
        \<and> map (edge_item (include_replies p)) (take k (delivered_edges srv reqs)) = map Some items
        \<and> out = filter (passes (min_likes p)) items
        \<and> (int (length out) < m \<longrightarrow> k = length (delivered_edges srv reqs)))"

text \<open>The records of \<open>mixed_nodes\<close>.\<close>

definition mixed_items :: "dict list" where
  "mixed_items =
     [comment_item ''1'' ''ann'' (JInt 1), comment_item ''2'' ''bob'' JNull,
      comment_item ''3'' ''cy'' (JInt 0), comment_item ''4'' ''dee'' (JInt 2),
      comment_item ''5'' ''eve'' (JInt 7), comment_item ''6'' ''fay'' (JInt 9)]"

section \<open>The fetch loop: cap and filter\<close>

lemma py_get_exn: "py_get v k d = Inl x \<Longrightarrow> x = AttributeError"
  by (cases v) simp_all

lemma py_iter_exn: "py_iter v = Inl x \<Longrightarrow> x = TypeError"
  by (cases v) simp_all

lemma py_subscript_exn: "py_subscript v k = Inl x \<Longrightarrow> x = TypeError \<or> x = KeyError"
  by (cases v) (simp_all split: option.splits)

lemma py_ge_exn: "py_ge v n = Inl x \<Longrightarrow> x = TypeError"
  by (cases v) simp_all

lemma parse_reply_exn: "parse_reply e = Inl x \<Longrightarrow> x = AttributeError"
  by (auto simp: parse_reply_def split: sum.splits dest: py_get_exn)

lemma parse_replies_exn: "parse_replies es rs = Inl x \<Longrightarrow> x = AttributeError"
  by (induction es arbitrary: rs) (auto split: sum.splits dest: parse_reply_exn)

lemma parse_comment_node_exn:
  "parse_comment_node node ir = Inl x \<Longrightarrow> x = AttributeError \<or> x = TypeError"
  by (auto simp: parse_comment_node_def Let_def split: sum.splits if_splits
      dest: py_get_exn py_iter_exn parse_replies_exn)

lemma for_edges_exn:
  "for_edges ir mc ml es rs = Inl (x, rs') \<Longrightarrow> x = AttributeError \<or> x = TypeError"
proof (induction es arbitrary: rs)
  case Nil
  then show ?case by simp
next
  case (Cons e es)
  then show ?case
    by (auto simp: Let_def meets_min_likes_def split: sum.splits if_splits
        dest: py_get_exn py_ge_exn parse_comment_node_exn)
qed

lemma try_page_exn:
  "try_page data ir mc ml rs = Raised x rs' \<Longrightarrow>
   x = AttributeError \<or> x = TypeError \<or> x = KeyError"
  by (auto simp: try_page_def split: sum.splits if_splits prod.splits
      dest: py_get_exn py_iter_exn py_subscript_exn for_edges_exn)

lemma fetch_loop_rule:
  assumes run: "fetch_loop srv p st = Some y"
    and init: "I st"
    and ret: "\<And>s reqs r. I s \<Longrightarrow> fetch_step srv p s = Return reqs r \<Longrightarrow> Q (reqs, r)"
    and cont: "\<And>s s'. I s \<Longrightarrow> fetch_step srv p s = Continue s' \<Longrightarrow> I s'"
  shows "Q y"
proof -
  have "srv = srv \<longrightarrow> p = p \<longrightarrow> I st \<longrightarrow> Q y"
  proof (rule fetch_loop.raw_induct
      [where P = "\<lambda>srv' p' s z. srv' = srv \<longrightarrow> p' = p \<longrightarrow> I s \<longrightarrow> Q z", OF _ run])
    fix f srv' p' s z
    assume IH: "\<And>a b c z. f a b c = Some z \<Longrightarrow> a = srv \<longrightarrow> b = p \<longrightarrow> I c \<longrightarrow> Q z"
      and body: "(case fetch_step srv' p' s of Return reqs r \<Rightarrow> Some (reqs, r)
                  | Continue s' \<Rightarrow> f srv' p' s') = Some z"
    show "srv' = srv \<longrightarrow> p' = p \<longrightarrow> I s \<longrightarrow> Q z"
    proof (intro impI)
      assume eq: "srv' = srv" "p' = p" and inv: "I s"
      show "Q z"
      proof (cases "fetch_step srv p s")
        case (Return reqs r)
        with body eq have "z = (reqs, r)" by simp
        with ret [OF inv Return] show ?thesis by simp
      next
        case (Continue s')
        with body eq have "f srv p s' = Some z" by simp
        from IH [OF this] cont [OF inv Continue] show ?thesis by simp
      qed
    qed
  qed
  with init show ?thesis by simp
qed

lemma for_edges_qualify:
  "\<forall>c\<in>set rs. meets_min_likes c ml = Inr True \<Longrightarrow>
   (case for_edges ir mc ml es rs of
      Inl (x, rs') \<Rightarrow> \<forall>c\<in>set rs'. meets_min_likes c ml = Inr True
    | Inr (rs', b) \<Rightarrow> \<forall>c\<in>set rs'. meets_min_likes c ml = Inr True)"
proof (induction es arbitrary: rs)
  case Nil
  then show ?case by simp
next
  case (Cons e es)
  show ?case
  proof (cases "py_get e ''node'' (JObj [])")
    case (Inl x)
    with Cons.prems show ?thesis by simp
  next
    case node: (Inr node)
    show ?thesis
    proof (cases "parse_comment_node node ir")
      case (Inl x)
      with node Cons.prems show ?thesis by simp
    next
      case item: (Inr item)
      show ?thesis
      proof (cases "meets_min_likes item ml")
        case (Inl x)
        with node item Cons.prems show ?thesis by simp
      next
        case keep: (Inr keep)
        let ?rs = "if keep then rs @ [item] else rs"
        from keep Cons.prems have q: "\<forall>c\<in>set ?rs. meets_min_likes c ml = Inr True"
          by auto
        show ?thesis
        proof (cases "cap_reached mc ?rs")
          case True
          with node item keep q show ?thesis by (simp add: Let_def)
        next
          case False
          with node item keep Cons.IH [OF q] show ?thesis by (simp add: Let_def)
        qed
      qed
    qed
  qed
qed

lemma for_edges_length:
  "0 < m \<Longrightarrow> int (length rs) < m \<Longrightarrow>
   (case for_edges ir (Some m) ml es rs of
      Inl (x, rs') \<Rightarrow> int (length rs') < m
    | Inr (rs', b) \<Rightarrow> (if b then int (length rs') = m else int (length rs') < m))"
proof (induction es arbitrary: rs)
  case Nil
  then show ?case by simp
next
  case (Cons e es)
  show ?case
  proof (cases "py_get e ''node'' (JObj [])")
    case (Inl x)
    with Cons.prems show ?thesis by simp
  next
    case node: (Inr node)
    show ?thesis
    proof (cases "parse_comment_node node ir")
      case (Inl x)
      with node Cons.prems show ?thesis by simp
    next
      case item: (Inr item)
      show ?thesis
      proof (cases "meets_min_likes item ml")
        case (Inl x)
        with node item Cons.prems show ?thesis by simp
      next
        case keep: (Inr keep)
        let ?rs = "if keep then rs @ [item] else rs"
        from Cons.prems have le: "int (length ?rs) \<le> m" by auto
        show ?thesis
        proof (cases "cap_reached (Some m) ?rs")
          case True
          with le have "int (length ?rs) = m" by (simp add: cap_reached_def)
          with True node item keep show ?thesis by (simp add: Let_def)
        next
          case False
          with Cons.prems(1) le have lt: "int (length ?rs) < m" by (simp add: cap_reached_def)
          with False node item keep Cons.IH [OF Cons.prems(1) lt] show ?thesis by (simp add: Let_def)
        qed
      qed
    qed
  qed
qed


lemma for_edges_qualify_Inr:
  "for_edges ir mc ml es rs = Inr (rs', b) \<Longrightarrow> \<forall>c\<in>set rs. meets_min_likes c ml = Inr True
   \<Longrightarrow> \<forall>c\<in>set rs'. meets_min_likes c ml = Inr True"
  using for_edges_qualify [of rs ml ir mc es] by simp

lemma for_edges_qualify_Inl:
  "for_edges ir mc ml es rs = Inl (x, rs') \<Longrightarrow> \<forall>c\<in>set rs. meets_min_likes c ml = Inr True
   \<Longrightarrow> \<forall>c\<in>set rs'. meets_min_likes c ml = Inr True"
  using for_edges_qualify [of rs ml ir mc es] by simp

lemma try_page_qualify:
  assumes "\<forall>c\<in>set rs. meets_min_likes c ml = Inr True"
  shows "case try_page data ir mc ml rs of
           Raised x rs' \<Rightarrow> \<forall>c\<in>set rs'. meets_min_likes c ml = Inr True
         | Break rs' \<Rightarrow> rs' = rs
         | Completed rs' ei \<Rightarrow> \<forall>c\<in>set rs'. meets_min_likes c ml = Inr True"
  using assms
  by (auto simp: try_page_def split: sum.splits prod.splits
      dest: for_edges_qualify_Inr for_edges_qualify_Inl)

lemma try_page_length:
  assumes "0 < m" "int (length rs) < m"
  shows "case try_page data ir (Some m) ml rs of
           Raised x rs' \<Rightarrow> int (length rs') < m
         | Break rs' \<Rightarrow> rs' = rs
         | Completed rs' ei \<Rightarrow> int (length rs') \<le> m"
proof -
  have "int (length rs') \<le> m"
    if "for_edges ir (Some m) ml es rs = Inr (rs', b)" for es rs' b
    using for_edges_length [OF assms, of ir ml es] that by (simp split: if_splits)
  moreover have "int (length rs') < m"
    if "for_edges ir (Some m) ml es rs = Inl (x, rs')" for es rs' x
    using for_edges_length [OF assms, of ir ml es] that by simp
  ultimately show ?thesis
    using assms by (auto simp: try_page_def split: sum.splits prod.splits)
qed

lemma fetch_step_likes:
  assumes "likes_inv (min_likes p) rs"
  shows "case fetch_step srv p (rs, cursor, reqs) of
           Return reqs' r \<Rightarrow> (case r of Inl x \<Rightarrow> True | Inr rs' \<Rightarrow> likes_inv (min_likes p) rs')
         | Continue (rs', c', reqs') \<Rightarrow> likes_inv (min_likes p) rs'"
proof (cases "graphql_request srv (reqs @ [request_variables p cursor])")
  case (Inl x)
  then show ?thesis by (simp add: fetch_step_def)
next
  case (Inr data)
  from assms try_page_qualify [of rs "min_likes p" data "include_replies p" "max_comments p"]
  show ?thesis
    unfolding likes_inv_def
    by (cases "try_page data (include_replies p) (max_comments p) (min_likes p) rs")
       (simp_all add: fetch_step_def Inr Let_def split: sum.splits)
qed

lemma fetch_step_length:
  assumes "max_comments p = Some m" "0 < m" "int (length rs) < m"
  shows "case fetch_step srv p (rs, cursor, reqs) of
           Return reqs' r \<Rightarrow> (case r of Inl x \<Rightarrow> True | Inr rs' \<Rightarrow> int (length rs') \<le> m)
         | Continue (rs', c', reqs') \<Rightarrow> int (length rs') < m"
proof (cases "graphql_request srv (reqs @ [request_variables p cursor])")
  case (Inl x)
  then show ?thesis by (simp add: fetch_step_def)
next
  case (Inr data)
  from assms try_page_length [of m rs data "include_replies p" "min_likes p"]
  show ?thesis
    by (cases "try_page data (include_replies p) (max_comments p) (min_likes p) rs")
       (auto simp add: fetch_step_def Inr Let_def cap_reached_def split: sum.splits)
qed

lemma fetch_loop_likes:
  assumes "fetch_loop srv p (rs, cursor, reqs) = Some (reqs', Inr rs')"
    and "likes_inv (min_likes p) rs"
  shows "likes_inv (min_likes p) rs'"
proof -
  have "case snd (reqs', Inr rs' :: py_exn + dict list) of Inl x \<Rightarrow> True
        | Inr out \<Rightarrow> likes_inv (min_likes p) out"
  proof (rule fetch_loop_rule [OF assms(1),
        where I = "\<lambda>s. likes_inv (min_likes p) (fst s)"
          and Q = "\<lambda>y. case snd y of Inl x \<Rightarrow> True | Inr out \<Rightarrow> likes_inv (min_likes p) out"])
    show "likes_inv (min_likes p) (fst (rs, cursor, reqs))" using assms(2) by simp
  next
    fix s a r
    assume "likes_inv (min_likes p) (fst s)" "fetch_step srv p s = Return a r"
    then show "case snd (a, r) of Inl x \<Rightarrow> True | Inr out \<Rightarrow> likes_inv (min_likes p) out"
      using fetch_step_likes [of p "fst s" srv "fst (snd s)" "snd (snd s)"] by simp
  next
    fix s s'
    assume "likes_inv (min_likes p) (fst s)" "fetch_step srv p s = Continue s'"
    then show "likes_inv (min_likes p) (fst s')"
      using fetch_step_likes [of p "fst s" srv "fst (snd s)" "snd (snd s)"]
      by (cases s') simp
  qed
  then show ?thesis by simp
qed

lemma fetch_loop_length:
  assumes "fetch_loop srv p (rs, cursor, reqs) = Some (reqs', Inr rs')"
    and "max_comments p = Some m" "0 < m" "int (length rs) < m"
  shows "int (length rs') \<le> m"
proof -
  have "case snd (reqs', Inr rs' :: py_exn + dict list) of Inl x \<Rightarrow> True
        | Inr out \<Rightarrow> int (length out) \<le> m"
  proof (rule fetch_loop_rule [OF assms(1),
        where I = "\<lambda>s. int (length (fst s)) < m"
          and Q = "\<lambda>y. case snd y of Inl x \<Rightarrow> True | Inr out \<Rightarrow> int (length out) \<le> m"])
    show "int (length (fst (rs, cursor, reqs))) < m" using assms(4) by simp
  next
    fix s a r
    assume "int (length (fst s)) < m" "fetch_step srv p s = Return a r"
    then show "case snd (a, r) of Inl x \<Rightarrow> True | Inr out \<Rightarrow> int (length out) \<le> m"
      using fetch_step_length [OF assms(2,3), of "fst s" srv "fst (snd s)" "snd (snd s)"] by simp
  next
    fix s s'
    assume "int (length (fst s)) < m" "fetch_step srv p s = Continue s'"
    then show "int (length (fst s')) < m"
      using fetch_step_length [OF assms(2,3), of "fst s" srv "fst (snd s)" "snd (snd s)"]
      by (cases s') simp
  qed
  then show ?thesis by simp
qed


lemma delivered_edges_snoc:
  "delivered_edges srv (reqs @ [v]) = delivered_edges srv reqs @ response_edges srv (reqs @ [v])"
proof -
  have eq: "map (\<lambda>i. response_edges srv (take (Suc i) (reqs @ [v]))) [0..<length reqs]
        = map (\<lambda>i. response_edges srv (take (Suc i) reqs)) [0..<length reqs]"
    by (rule map_cong) simp_all
  show ?thesis by (simp add: delivered_edges_def eq del: take_append)
qed

lemma for_edges_prefix:
  "for_edges ir mc ml es rs = Inr (rs', b) \<Longrightarrow>
   \<exists>k items. k \<le> length es \<and> map (edge_item ir) (take k es) = map Some items
      \<and> rs' = rs @ filter (passes ml) items
      \<and> (b \<longrightarrow> cap_reached mc rs') \<and> (\<not> b \<longrightarrow> k = length es)"
proof (induction es arbitrary: rs)
  case Nil
  then have "rs' = rs" "\<not> b" by simp_all
  then have "(0::nat) \<le> length ([] :: json list)
      \<and> map (edge_item ir) (take 0 []) = map Some []
      \<and> rs' = rs @ filter (passes ml) []
      \<and> (b \<longrightarrow> cap_reached mc rs') \<and> (\<not> b \<longrightarrow> (0::nat) = length ([] :: json list))"
    by simp
  then show ?case by blast
next
  case (Cons e es)
  from Cons.prems obtain node where node: "py_get e ''node'' (JObj []) = Inr node"
    by (cases "py_get e ''node'' (JObj [])") simp_all
  from Cons.prems node obtain item where item: "parse_comment_node node ir = Inr item"
    by (cases "parse_comment_node node ir") simp_all
  from Cons.prems node item obtain keep where keep: "meets_min_likes item ml = Inr keep"
    by (cases "meets_min_likes item ml") simp_all
  let ?rs = "if keep then rs @ [item] else rs"
  from node item have ei: "edge_item ir e = Some item" by (simp add: edge_item_def)
  from keep have pk: "passes ml item = keep" by (simp add: passes_def)
  then have flt: "filter (passes ml) [item] = (if keep then [item] else [])" by simp
  show ?case
  proof (cases "cap_reached mc ?rs")
    case True
    with Cons.prems node item keep have "rs' = ?rs" "b" by (simp_all add: Let_def)
    with True ei flt
    have "Suc 0 \<le> length (e # es)
      \<and> map (edge_item ir) (take (Suc 0) (e # es)) = map Some [item]
      \<and> rs' = rs @ filter (passes ml) [item]
      \<and> (b \<longrightarrow> cap_reached mc rs') \<and> (\<not> b \<longrightarrow> Suc 0 = length (e # es))"
      by simp
    then show ?thesis by blast
  next
    case False
    with Cons.prems node item keep
    have "for_edges ir mc ml es ?rs = Inr (rs', b)" by (simp add: Let_def)
    from Cons.IH [OF this] obtain k items where k: "k \<le> length es"
      "map (edge_item ir) (take k es) = map Some items"
      "rs' = ?rs @ filter (passes ml) items"
      "b \<longrightarrow> cap_reached mc rs'" "\<not> b \<longrightarrow> k = length es"
      by blast
    from k(3) pk have "rs' = rs @ filter (passes ml) (item # items)" by simp
    with k ei
    have "Suc k \<le> length (e # es)
      \<and> map (edge_item ir) (take (Suc k) (e # es)) = map Some (item # items)
      \<and> rs' = rs @ filter (passes ml) (item # items)
      \<and> (b \<longrightarrow> cap_reached mc rs') \<and> (\<not> b \<longrightarrow> Suc k = length (e # es))"
      by simp
    then show ?thesis by blast
  qed
qed

lemma try_page_Completed:
  "try_page data ir mc ml rs = Completed rs' ei \<Longrightarrow>
   \<exists>b. for_edges ir mc ml (page_edges data) rs = Inr (rs', b)"
  by (auto simp: try_page_def page_edges_def split: sum.splits if_splits prod.splits)

lemma try_page_Break:
  "try_page data ir mc ml rs = Break rs' \<Longrightarrow> rs' = rs \<and> page_edges data = []"
  by (auto simp: try_page_def page_edges_def split: sum.splits if_splits prod.splits)
lemma try_page_KeyError_edges:
  assumes "try_page data ir mc ml rs = Raised KeyError rs'"
  shows "rs' = rs \<and> page_edges data = []"
proof (cases "py_get data ''data'' (JObj [])")
  case (Inl x)
  with assms py_get_exn [OF Inl] show ?thesis by (simp add: try_page_def)
next
  case d: (Inr d)
  show ?thesis
  proof (cases "py_get d ''shortcode_media'' JNull")
    case (Inl x)
    with assms d py_get_exn [OF Inl] show ?thesis by (simp add: try_page_def)
  next
    case media: (Inr media)
    show ?thesis
    proof (cases "truthy media")
      case False
      with assms d media show ?thesis by (simp add: try_page_def)
    next
      case True
      show ?thesis
      proof (cases "py_subscript media ''edge_media_to_parent_comment''")
        case (Inl x)
        with assms d media True show ?thesis by (simp add: try_page_def page_edges_def)
      next
        case ei: (Inr edge_info)
        show ?thesis
        proof (cases "py_get edge_info ''edges'' (JList [])")
          case (Inl x)
          with assms d media True ei py_get_exn [OF Inl] show ?thesis
            by (simp add: try_page_def)
        next
          case edges: (Inr edges)
          show ?thesis
          proof (cases "py_iter edges")
            case (Inl x)
            with assms d media True ei edges py_iter_exn [OF Inl] show ?thesis
              by (simp add: try_page_def)
          next
            case es: (Inr es)
            show ?thesis
            proof (cases "for_edges ir mc ml es rs")
              case (Inl xr)
              obtain x r where xr: "xr = (x, r)" by (cases xr)
              with Inl have "for_edges ir mc ml es rs = Inl (x, r)" by simp
              from for_edges_exn [OF this] have "x \<noteq> KeyError" by auto
              with assms d media True ei edges es Inl xr show ?thesis
                by (simp add: try_page_def)
            next
              case (Inr ok)
              with assms d media True ei edges es show ?thesis
                by (simp add: try_page_def split: prod.splits)
            qed
          qed
        qed
      qed
    qed
  qed
qed

lemma cap_post_same:
  assumes "cap_inv srv p m (rs, cursor, reqs)"
    and "response_edges srv (reqs @ [v]) = []"
  shows "cap_post srv p m (reqs @ [v]) rs"
proof -
  from assms(1) obtain items where
    items: "map (edge_item (include_replies p)) (delivered_edges srv reqs) = map Some items"
      "rs = filter (passes (min_likes p)) items"
    by (auto simp: cap_inv_def)
  from assms(2) have same: "delivered_edges srv (reqs @ [v]) = delivered_edges srv reqs"
    by (simp add: delivered_edges_snoc)
  have "length (delivered_edges srv reqs) \<le> length (delivered_edges srv reqs)
        \<and> map (edge_item (include_replies p))
              (take (length (delivered_edges srv reqs)) (delivered_edges srv reqs)) = map Some items
        \<and> rs = filter (passes (min_likes p)) items
        \<and> (int (length rs) < m \<longrightarrow>
              length (delivered_edges srv reqs) = length (delivered_edges srv reqs))"
    using items by simp
  then show ?thesis unfolding cap_post_def same by blast
qed

lemma cap_step_page:
  assumes inv: "cap_inv srv p m (rs, cursor, reqs)"
    and mc: "max_comments p = Some m" and pos: "0 < m"
    and edges: "response_edges srv (reqs @ [v]) = es"
    and run: "for_edges (include_replies p) (max_comments p) (min_likes p) es rs = Inr (rs', b)"
  shows "cap_post srv p m (reqs @ [v]) rs'
         \<and> (\<not> cap_reached (max_comments p) rs' \<longrightarrow> cap_inv srv p m (rs', c', reqs @ [v]))"
proof -
  let ?ir = "include_replies p" and ?ml = "min_likes p"
  let ?old = "delivered_edges srv reqs"
  from inv obtain items where
    items: "map (edge_item ?ir) ?old = map Some items"
      "rs = filter (passes ?ml) items"
    by (auto simp: cap_inv_def)
  from for_edges_prefix [OF run] obtain k items' where k: "k \<le> length es"
    "map (edge_item ?ir) (take k es) = map Some items'"
    "rs' = rs @ filter (passes ?ml) items'"
    "b \<longrightarrow> cap_reached (max_comments p) rs'" "\<not> b \<longrightarrow> k = length es"
    by blast
  have all: "delivered_edges srv (reqs @ [v]) = ?old @ es"
    by (simp add: delivered_edges_snoc edges)
  have tk: "take (length ?old + k) (?old @ es) = ?old @ take k es" by simp
  have parsed: "map (edge_item ?ir) (take (length ?old + k) (?old @ es)) = map Some (items @ items')"
    unfolding tk using items(1) k(2) by simp
  have out: "rs' = filter (passes ?ml) (items @ items')"
    using items(2) k(3) by simp
  have full: "length ?old + k = length (?old @ es)" if "\<not> cap_reached (max_comments p) rs'"
    using that k(4,5) by auto
  have small: "\<not> cap_reached (max_comments p) rs'" if "int (length rs') < m"
    using that mc pos by (simp add: cap_reached_def)
  have "length ?old + k \<le> length (?old @ es)
        \<and> map (edge_item ?ir) (take (length ?old + k) (?old @ es)) = map Some (items @ items')
        \<and> rs' = filter (passes ?ml) (items @ items')
        \<and> (int (length rs') < m \<longrightarrow> length ?old + k = length (?old @ es))"
    using k(1) parsed out full small by auto
  then have post: "cap_post srv p m (reqs @ [v]) rs'"
    unfolding cap_post_def all by blast
  have "cap_inv srv p m (rs', c', reqs @ [v])" if nc: "\<not> cap_reached (max_comments p) rs'"
  proof -
    from nc mc pos have lt: "int (length rs') < m" by (simp add: cap_reached_def)
    from full [OF nc] have "take (length ?old + k) (?old @ es) = ?old @ es" by simp
    with parsed have pa: "map (edge_item ?ir) (?old @ es) = map Some (items @ items')"
      by simp
    have "int (length rs') < m
          \<and> (\<exists>its. map (edge_item ?ir) (?old @ es) = map Some its
                \<and> rs' = filter (passes ?ml) its)"
      using lt out pa by blast
    then show ?thesis by (simp add: cap_inv_def all)
  qed
  with post show ?thesis by blast
qed
lemma fetch_step_cap:
  assumes inv: "cap_inv srv p m (rs, cursor, reqs)"
    and mc: "max_comments p = Some m" and pos: "0 < m"
  shows "case fetch_step srv p (rs, cursor, reqs) of
           Return reqs' r \<Rightarrow> (case r of Inl x \<Rightarrow> True | Inr out \<Rightarrow> cap_post srv p m reqs' out)
         | Continue st' \<Rightarrow> cap_inv srv p m st'"
proof -
  let ?v = "request_variables p cursor"
  let ?reqs = "reqs @ [?v]"
  show ?thesis
  proof (cases "graphql_request srv ?reqs")
    case (Inl x)
    then show ?thesis by (simp add: fetch_step_def)
  next
    case (Inr data)
    then have edges: "response_edges srv ?reqs = page_edges data"
      by (simp add: response_edges_def)
    show ?thesis
    proof (cases "try_page data (include_replies p) (max_comments p) (min_likes p) rs")
      case (Raised x rs')
      show ?thesis
      proof (cases "x = KeyError")
        case True
        with Raised try_page_KeyError_edges [of data _ _ _ rs rs']
        have "rs' = rs" "page_edges data = []" by simp_all
        with cap_post_same [OF inv, of ?v] edges have "cap_post srv p m ?reqs rs'" by simp
        with Inr Raised True show ?thesis by (simp add: fetch_step_def)
      next
        case False
        with Inr Raised show ?thesis by (simp add: fetch_step_def)
      qed
    next
      case (Break rs')
      with try_page_Break [of data _ _ _ rs rs']
      have "rs' = rs" "page_edges data = []" by simp_all
      with cap_post_same [OF inv, of ?v] edges have "cap_post srv p m ?reqs rs'" by simp
      with Inr Break show ?thesis by (simp add: fetch_step_def)
    next
      case (Completed rs' ei)
      from try_page_Completed [OF this] obtain b where
        run: "for_edges (include_replies p) (max_comments p) (min_likes p) (page_edges data) rs
                = Inr (rs', b)" ..
      from cap_step_page [OF inv mc pos edges run]
      have post: "cap_post srv p m ?reqs rs'"
        and next_inv: "\<And>c'. \<not> cap_reached (max_comments p) rs' \<Longrightarrow>
                         cap_inv srv p m (rs', c', ?reqs)"
        by blast+
      show ?thesis
      proof (cases "py_get ei ''page_info'' (JObj [])")
        case (Inl x)
        with Inr Completed show ?thesis by (simp add: fetch_step_def)
      next
        case pinfo: (Inr page_info)
        show ?thesis
        proof (cases "py_get page_info ''has_next_page'' JNull")
          case (Inl x)
          with Inr Completed pinfo show ?thesis by (simp add: fetch_step_def)
        next
          case hnp: (Inr hnp)
          show ?thesis
          proof (cases "py_get page_info ''end_cursor'' JNull")
            case (Inl x)
            with Inr Completed pinfo hnp show ?thesis by (simp add: fetch_step_def)
          next
            case cur: (Inr cursor')
            show ?thesis
            proof (cases "truthy hnp \<and> \<not> cap_reached (max_comments p) rs'")
              case True
              with next_inv [of cursor'] have "cap_inv srv p m (rs', cursor', ?reqs)" by simp
              with True Inr Completed pinfo hnp cur show ?thesis
                by (simp add: fetch_step_def Let_def)
            next
              case False
              then have stop: "(if truthy hnp \<and> \<not> cap_reached (max_comments p) rs'
                                then Continue (rs', cursor', ?reqs)
                                else Return ?reqs (Inr rs')) = Return ?reqs (Inr rs')"
                by (simp only: if_False)
              with post Inr Completed pinfo hnp cur show ?thesis
                by (simp add: fetch_step_def Let_def)
            qed
          qed
        qed
      qed
    qed
  qed
qed

lemma fetch_loop_cap:
  assumes run: "fetch_loop srv p (rs, cursor, reqs) = Some (reqs', Inr out)"
    and inv: "cap_inv srv p m (rs, cursor, reqs)"
    and mc: "max_comments p = Some m" and pos: "0 < m"
  shows "cap_post srv p m reqs' out"
proof -
  have "case snd (reqs', Inr out :: py_exn + dict list) of Inl x \<Rightarrow> True
        | Inr r \<Rightarrow> cap_post srv p m (fst (reqs', Inr out :: py_exn + dict list)) r"
  proof (rule fetch_loop_rule [OF run,
        where I = "cap_inv srv p m"
          and Q = "\<lambda>y. case snd y of Inl x \<Rightarrow> True | Inr r \<Rightarrow> cap_post srv p m (fst y) r"])
    show "cap_inv srv p m (rs, cursor, reqs)" by (rule inv)
  next
    fix s a r
    assume i: "cap_inv srv p m s" and st: "fetch_step srv p s = Return a r"
    obtain x y z where s: "s = (x, y, z)" by (cases s)
    from fetch_step_cap [OF i [unfolded s] mc pos] st [unfolded s]
    show "case snd (a, r) of Inl x \<Rightarrow> True | Inr q \<Rightarrow> cap_post srv p m (fst (a, r)) q"
      by (cases r) simp_all
  next
    fix s s'
    assume i: "cap_inv srv p m s" and st: "fetch_step srv p s = Continue s'"
    obtain x y z where s: "s = (x, y, z)" by (cases s)
    from fetch_step_cap [OF i [unfolded s] mc pos] st [unfolded s]
    show "cap_inv srv p m s'" by simp
  qed
  then show ?thesis by simp
qed

lemma cap_inv_init: "0 < m \<Longrightarrow> cap_inv srv p m ([], JNull, [])"
  by (simp add: cap_inv_def delivered_edges_def)

lemma cap_post_take:
  assumes post: "cap_post srv p m reqs out" and le: "int (length out) \<le> m"
    and parsed: "map (edge_item (include_replies p)) (delivered_edges srv reqs) = map Some everything"
  shows "out = take (nat m) (filter (passes (min_likes p)) everything)"
proof -
  let ?D = "delivered_edges srv reqs" and ?P = "passes (min_likes p)"
  from post obtain k items where k: "k \<le> length ?D"
    "map (edge_item (include_replies p)) (take k ?D) = map Some items"
    "out = filter ?P items" "int (length out) < m \<longrightarrow> k = length ?D"
    unfolding cap_post_def by blast
  have "map Some items = take k (map (edge_item (include_replies p)) ?D)"
    using k(2) by (simp add: take_map)
  also have "\<dots> = map Some (take k everything)" unfolding parsed by (simp add: take_map)
  finally have "items = take k everything"
    by (simp add: inj_map_eq_map [OF inj_Some])
  with k(3) have out: "out = filter ?P (take k everything)" by simp
  from parsed have len: "length ?D = length everything"
    by (metis length_map)
  show ?thesis
  proof (cases "int (length out) < m")
    case True
    with k(4) len have "k = length everything" by simp
    with out have "out = filter ?P everything" by simp
    moreover from True have "length out \<le> nat m" by simp
    ultimately show ?thesis by simp
  next
    case False
    with le have eq: "length out = nat m" by simp
    have "filter ?P everything = filter ?P (take k everything) @ filter ?P (drop k everything)"
      by (metis append_take_drop_id filter_append)
    then have "filter ?P everything = out @ filter ?P (drop k everything)"
      unfolding out .
    then have "take (nat m) (filter ?P everything) = take (length out) (out @ filter ?P (drop k everything))"
      unfolding eq by simp
    then show ?thesis by simp
  qed
qed
text \<open>
  C1, as the code has it: when the configured maximum record count is positive, the
  records returned by \<open>fetch_parent_comments\<close> are at most that many, each of them
  passed the minimum-likes test, and they are the records passing the test among those
  of a prefix of the edges delivered, the whole of them when fewer than the maximum are
  returned. So when every delivered edge yields a record, the result is the first
  \<open>m\<close> of the records that pass the test: an edge that fails it takes no place under
  the cap.
\<close>

theorem fetch_parent_comments_cap:
  assumes "fetch_parent_comments srv p = Some (reqs, Inr rs)"
    and "max_comments p = Some m" and "0 < m"
  shows "int (length rs) \<le> m
         \<and> (\<forall>c\<in>set rs. meets_min_likes c (min_likes p) = Inr True)
         \<and> (\<exists>k items. k \<le> length (delivered_edges srv reqs)
               \<and> map (edge_item (include_replies p)) (take k (delivered_edges srv reqs))
                   = map Some items
               \<and> rs = filter (passes (min_likes p)) items
               \<and> (int (length rs) < m \<longrightarrow> k = length (delivered_edges srv reqs)))
         \<and> (\<forall>everything.
               map (edge_item (include_replies p)) (delivered_edges srv reqs) = map Some everything
               \<longrightarrow> rs = take (nat m) (filter (passes (min_likes p)) everything))"
proof -
  from assms(1) have run: "fetch_loop srv p ([], JNull, []) = Some (reqs, Inr rs)"
    by (simp add: fetch_parent_comments_def)
  from assms(3) have "int (length ([] :: dict list)) < m" by simp
  from fetch_loop_length [OF run assms(2,3) this] have len: "int (length rs) \<le> m" .
  have "likes_inv (min_likes p) []" by (simp add: likes_inv_def)
  from fetch_loop_likes [OF run this]
  have likes: "\<forall>c\<in>set rs. meets_min_likes c (min_likes p) = Inr True"
    by (simp add: likes_inv_def)
  from fetch_loop_cap [OF run cap_inv_init [OF assms(3)] assms(2,3)]
  have post: "cap_post srv p m reqs rs" .
  then have prefix: "\<exists>k items. k \<le> length (delivered_edges srv reqs)
               \<and> map (edge_item (include_replies p)) (take k (delivered_edges srv reqs))
                   = map Some items
               \<and> rs = filter (passes (min_likes p)) items
               \<and> (int (length rs) < m \<longrightarrow> k = length (delivered_edges srv reqs))"
    by (simp only: cap_post_def)
  have first: "\<forall>everything.
               map (edge_item (include_replies p)) (delivered_edges srv reqs) = map Some everything
               \<longrightarrow> rs = take (nat m) (filter (passes (min_likes p)) everything)"
    using cap_post_take [OF post len] by blast
  show ?thesis by (intro conjI len likes prefix first)
qed

theorem fetch_parent_comments_cap_witness:
  "fetch_parent_comments (same_page (page mixed_nodes True)) (params (Some 2) 2)
     = Some ([first_request],
             Inr [comment_item ''4'' ''dee'' (JInt 2), comment_item ''5'' ''eve'' (JInt 7)])
   \<and> max_comments (params (Some 2) 2) = Some 2 \<and> (0 :: int) < 2
   \<and> int (length [comment_item ''4'' ''dee'' (JInt 2), comment_item ''5'' ''eve'' (JInt 7)]) \<le> 2
   \<and> list_all (\<lambda>c. meets_min_likes c (min_likes (params (Some 2) 2)) = Inr True)
        [comment_item ''4'' ''dee'' (JInt 2), comment_item ''5'' ''eve'' (JInt 7)]
   \<and> map (edge_item (include_replies (params (Some 2) 2)))
        (delivered_edges (same_page (page mixed_nodes True)) [first_request])
     = map Some mixed_items
   \<and> [comment_item ''4'' ''dee'' (JInt 2), comment_item ''5'' ''eve'' (JInt 7)]
     = take (nat 2) (filter (passes (min_likes (params (Some 2) 2))) mixed_items)"
proof -
  let ?srv = "same_page (page mixed_nodes True)" and ?p = "params (Some 2) 2"
  let ?rs = "[comment_item ''4'' ''dee'' (JInt 2), comment_item ''5'' ''eve'' (JInt 7)]"
  have run: "fetch_parent_comments ?srv ?p = Some ([first_request], Inr ?rs)"
    by code_simp
  have cap: "max_comments ?p = Some 2" by (simp add: params_def)
  have pos: "(0 :: int) < 2" by simp
  have parsed: "map (edge_item (include_replies ?p)) (delivered_edges ?srv [first_request])
     = map Some mixed_items"
    by code_simp
  note inst = fetch_parent_comments_cap [OF run cap pos]
  from inst have len: "int (length ?rs) \<le> 2" by (rule conjunct1)
  from inst have "\<forall>c\<in>set ?rs. meets_min_likes c (min_likes ?p) = Inr True"
    by (elim conjE)
  then have likes: "list_all (\<lambda>c. meets_min_likes c (min_likes ?p) = Inr True) ?rs"
    by (simp only: list_all_iff)
  from inst have "\<forall>everything.
      map (edge_item (include_replies ?p)) (delivered_edges ?srv [first_request])
        = map Some everything
      \<longrightarrow> ?rs = take (nat 2) (filter (passes (min_likes ?p)) everything)"
    by (elim conjE)
  with parsed have first: "?rs = take (nat 2) (filter (passes (min_likes ?p)) mixed_items)"
    by blast
  show ?thesis by (intro conjI run cap pos len likes parsed first)
qed

text \<open>
  C1 as stated fails for a maximum that is not positive: with the maximum 0 the cap is
  never applied and both records of the page are returned; with the maximum -1 the loop
  stops after the first node, with one record.
\<close>

theorem fetch_parent_comments_cap_counterexample:
  "fetch_parent_comments (same_page (page two_nodes False)) (params (Some 0) 0)
     = Some ([first_request],
             Inr [comment_item ''1'' ''ann'' (JInt 3), comment_item ''2'' ''bob'' JNull])
   \<and> \<not> int (length [comment_item ''1'' ''ann'' (JInt 3), comment_item ''2'' ''bob'' JNull]) \<le> 0
   \<and> fetch_parent_comments (same_page (page two_nodes False)) (params (Some (- 1)) 0)
     = Some ([first_request], Inr [comment_item ''1'' ''ann'' (JInt 3)])
   \<and> \<not> int (length [comment_item ''1'' ''ann'' (JInt 3)]) \<le> - 1"
proof -
  have "fetch_parent_comments (same_page (page two_nodes False)) (params (Some 0) 0)
     = Some ([first_request],
             Inr [comment_item ''1'' ''ann'' (JInt 3), comment_item ''2'' ''bob'' JNull])"
    by code_simp
  moreover have "fetch_parent_comments (same_page (page two_nodes False)) (params (Some (- 1)) 0)
     = Some ([first_request], Inr [comment_item ''1'' ''ann'' (JInt 3)])"
    by code_simp
  ultimately show ?thesis by simp
qed

section \<open>The minimum-likes filter\<close>

lemma meets_min_likes_int:
  "meets_min_likes c ml = Inr True \<Longrightarrow> dict_get c ''like_count'' JNull = JInt n \<Longrightarrow> ml \<le> n"
  by (cases "n = 0") (simp_all add: meets_min_likes_def py_or_def)

lemma meets_min_likes_unknown:
  "meets_min_likes c ml = Inr True \<Longrightarrow> dict_get c ''like_count'' JNull = JNull \<Longrightarrow> ml \<le> 0"
  by (simp add: meets_min_likes_def py_or_def)

text \<open>
  C2: a record is in the result of \<open>fetch_parent_comments\<close> only if it passed the test
  \<open>(item.get("like_count") or 0) >= min_likes\<close>: a known like count is at least the
  threshold, and a record without a like count is there only when the threshold is at
  most zero.
\<close>

theorem min_likes_filter:
  assumes "fetch_parent_comments srv p = Some (reqs, Inr rs)" and "c \<in> set rs"
  shows "meets_min_likes c (min_likes p) = Inr True
         \<and> (\<forall>n. dict_get c ''like_count'' JNull = JInt n \<longrightarrow> min_likes p \<le> n)
         \<and> (dict_get c ''like_count'' JNull = JNull \<longrightarrow> min_likes p \<le> 0)"
proof -
  from assms(1) have run: "fetch_loop srv p ([], JNull, []) = Some (reqs, Inr rs)"
    by (simp add: fetch_parent_comments_def)
  have "likes_inv (min_likes p) []" by (simp add: likes_inv_def)
  from fetch_loop_likes [OF run this] assms(2)
  have ok: "meets_min_likes c (min_likes p) = Inr True" by (simp add: likes_inv_def)
  with meets_min_likes_int [OF ok] meets_min_likes_unknown [OF ok] show ?thesis by blast
qed

theorem min_likes_filter_witness:
  "fetch_parent_comments (same_page (page mixed_nodes False)) (params None 2)
     = Some ([first_request],
             Inr [comment_item ''4'' ''dee'' (JInt 2), comment_item ''5'' ''eve'' (JInt 7),
                  comment_item ''6'' ''fay'' (JInt 9)])
   \<and> comment_item ''4'' ''dee'' (JInt 2)
       \<in> set [comment_item ''4'' ''dee'' (JInt 2), comment_item ''5'' ''eve'' (JInt 7),
               comment_item ''6'' ''fay'' (JInt 9)]
   \<and> dict_get (comment_item ''4'' ''dee'' (JInt 2)) ''like_count'' JNull = JInt 2
   \<and> min_likes (params None 2) \<le> 2"
proof -
  have run: "fetch_parent_comments (same_page (page mixed_nodes False)) (params None 2)
     = Some ([first_request],
             Inr [comment_item ''4'' ''dee'' (JInt 2), comment_item ''5'' ''eve'' (JInt 7),
                  comment_item ''6'' ''fay'' (JInt 9)])"
    by code_simp
  have mem: "comment_item ''4'' ''dee'' (JInt 2)
       \<in> set [comment_item ''4'' ''dee'' (JInt 2), comment_item ''5'' ''eve'' (JInt 7),
               comment_item ''6'' ''fay'' (JInt 9)]"
    by simp
  have likes: "dict_get (comment_item ''4'' ''dee'' (JInt 2)) ''like_count'' JNull = JInt 2"
    by (simp add: comment_item_def dict_get_def)
  from min_likes_filter [OF run mem] likes run mem show ?thesis by blast
qed

section \<open>Exits of the fetch loop\<close>

lemma fetch_loop_Return:
  "fetch_step srv p st = Return reqs r \<Longrightarrow> fetch_loop srv p st = Some (reqs, r)"
  by (subst fetch_loop.simps) simp






section \<open>Reaching the cap inside a page\<close>

lemma for_edges_break_cap:
  "for_edges ir mc ml es rs = Inr (rs', True) \<Longrightarrow> cap_reached mc rs'"
proof (induction es arbitrary: rs)
  case Nil
  then show ?case by simp
next
  case (Cons e es)
  then show ?case
    by (auto simp: Let_def split: sum.splits if_splits)
qed

lemma for_edges_break_prefix:
  "for_edges ir mc ml pre rs = Inr (rs', True) \<Longrightarrow>
   for_edges ir mc ml (pre @ post) rs = Inr (rs', True)"
proof (induction pre arbitrary: rs)
  case Nil
  then show ?case by simp
next
  case (Cons e pre)
  then show ?case
    by (auto simp: Let_def split: sum.splits if_splits)
qed

lemma for_edges_break_length:
  assumes "for_edges ir (Some m) ml es rs = Inr (rs', True)" and "0 < m"
    and "int (length rs) < m"
  shows "int (length rs') = m"
  using for_edges_length [OF assms(2,3), of ir ml es] assms(1) by simp

text \<open>
  C4: with a positive maximum not yet reached, when the cap test succeeds at a node of
  a page (the nodes \<open>pre\<close> up to it, of a page \<open>pre @ post\<close>), the loop ends with this
  request: the records are those collected up to that node, exactly the maximum in
  number, whatever the remaining nodes \<open>post\<close> and the page's continuation info are, and
  the requests issued are those made before and the one for this page.
\<close>

theorem cap_reached_mid_page:
  assumes "max_comments p = Some m" and "0 < m" and "int (length results) < m"
    and "srv (reqs @ [request_variables p cursor]) = Response 200 (Some (JObj body))"
    and "dict_get body ''data'' (JObj []) = JObj d"
    and "dict_get d ''shortcode_media'' JNull = JObj media"
    and "map_of media ''edge_media_to_parent_comment'' = Some (JObj edge_info)"
    and "dict_get edge_info ''edges'' (JList []) = JList (pre @ post)"
    and "dict_get edge_info ''page_info'' (JObj []) = JObj page_info"
    and "for_edges (include_replies p) (max_comments p) (min_likes p) pre results
           = Inr (rs, True)"
  shows "fetch_loop srv p (results, cursor, reqs)
           = Some (reqs @ [request_variables p cursor], Inr rs)
         \<and> int (length rs) = m"
proof -
  let ?reqs = "reqs @ [request_variables p cursor]"
  have req: "graphql_request srv ?reqs = Inr (JObj body)"
    using assms(4) by (simp add: graphql_request_def)
  from assms(7) have ne: "media \<noteq> []" by auto
  from for_edges_break_prefix [OF assms(10)]
  have run: "for_edges (include_replies p) (max_comments p) (min_likes p) (pre @ post) results
               = Inr (rs, True)" .
  have page: "try_page (JObj body) (include_replies p) (max_comments p) (min_likes p) results
                = Completed rs (JObj edge_info)"
    using assms(5,6,7,8) ne run by (simp add: try_page_def)
  from for_edges_break_cap [OF assms(10)] have cap: "cap_reached (max_comments p) rs" .
  have "fetch_step srv p (results, cursor, reqs) = Return ?reqs (Inr rs)"
    using req page cap assms(9) by (simp add: fetch_step_def Let_def)
  from fetch_loop_Return [OF this]
  have "fetch_loop srv p (results, cursor, reqs) = Some (?reqs, Inr rs)" .
  moreover from assms(10) have "int (length rs) = m"
    unfolding assms(1) using assms(2,3) by (rule for_edges_break_length)
  ultimately show ?thesis by simp
qed

theorem cap_reached_mid_page_witness:
  "max_comments (params (Some 5) 0) = Some 5 \<and> (0 :: int) < 5
   \<and> int (length ([] :: dict list)) < 5
   \<and> for_edges False (Some 5) 0 (map edge (take 5 eight_nodes)) [] = Inr (five_items, True)
   \<and> fetch_parent_comments (same_page (page eight_nodes True)) (params (Some 5) 0)
     = Some ([first_request], Inr five_items)
   \<and> int (length five_items) = 5"
proof -
  let ?p = "params (Some 5) 0"
  have mc: "max_comments ?p = Some 5" by (simp add: params_def)
  have vars: "request_variables ?p JNull = first_request"
    by (simp add: request_variables_def params_def first_request_def)
  have resp: "same_page (page eight_nodes True) ([] @ [request_variables ?p JNull])
     = Response 200 (Some (JObj (page_body eight_nodes True)))"
    by (simp add: same_page_def page_def)
  have data: "dict_get (page_body eight_nodes True) ''data'' (JObj [])
     = JObj [(''shortcode_media'', JObj (media_of eight_nodes True))]"
    by (simp add: page_body_def dict_get_def)
  have media: "dict_get [(''shortcode_media'', JObj (media_of eight_nodes True))]
       ''shortcode_media'' JNull = JObj (media_of eight_nodes True)"
    by (simp add: dict_get_def)
  have info: "map_of (media_of eight_nodes True) ''edge_media_to_parent_comment''
     = Some (JObj (edge_info_of eight_nodes True))"
    by (simp add: media_of_def)
  have edges: "dict_get (edge_info_of eight_nodes True) ''edges'' (JList [])
     = JList (map edge (take 5 eight_nodes) @ map edge (drop 5 eight_nodes))"
    by (simp add: edge_info_of_def dict_get_def flip: map_append)
  have pinfo: "dict_get (edge_info_of eight_nodes True) ''page_info'' (JObj [])
     = JObj (page_info_of True)"
    by (simp add: edge_info_of_def dict_get_def)
  have hit: "for_edges False (Some 5) 0 (map edge (take 5 eight_nodes)) []
     = Inr (five_items, True)"
    by code_simp
  have hit': "for_edges (include_replies ?p) (max_comments ?p) (min_likes ?p)
       (map edge (take 5 eight_nodes)) [] = Inr (five_items, True)"
    using hit by (simp add: params_def)
  have "fetch_loop (same_page (page eight_nodes True)) ?p ([], JNull, [])
          = Some ([] @ [request_variables ?p JNull], Inr five_items)
        \<and> int (length five_items) = 5"
    by (rule cap_reached_mid_page
        [where srv = "same_page (page eight_nodes True)" and m = 5 and reqs = "[]"
           and body = "page_body eight_nodes True" and post = "map edge (drop 5 eight_nodes)",
         OF mc _ _ resp data media info edges pinfo hit']) simp_all
  with vars hit mc show ?thesis by (simp add: fetch_parent_comments_def)
qed

section \<open>Deduplication by key\<close>

lemma dedupe_loop_keep_firsts:
  "\<forall>it\<in>set items. hashable (dict_get it key JNull) \<Longrightarrow>
   dedupe_loop key items seen result = Inr (result @ keep_firsts key seen items)"
  by (induction items arbitrary: seen result) (auto simp: Let_def)

lemma dedupe_loop_hashable:
  "dedupe_loop key items seen result = Inr r \<Longrightarrow> \<forall>it\<in>set items. hashable (dict_get it key JNull)"
proof (induction items arbitrary: seen result)
  case Nil
  then show ?case by simp
next
  case (Cons it items)
  then show ?case
    by (auto simp: Let_def split: if_splits)
qed

lemma dedupe_by_key_Inr_iff:
  "dedupe_by_key items key = Inr r \<longleftrightarrow>
   (\<forall>it\<in>set items. hashable (dict_get it key JNull)) \<and> r = keep_firsts key {} items"
  unfolding dedupe_by_key_def
  using dedupe_loop_hashable [of key items "{}" "[]" r]
    dedupe_loop_keep_firsts [of items key "{}" "[]"]
  by auto

lemma keep_firsts_member:
  "c \<in> set (keep_firsts key seen items) \<Longrightarrow>
   c \<in> set items \<and> dict_get c key JNull \<noteq> JNull \<and> hash_key (dict_get c key JNull) \<notin> seen"
  by (induction items arbitrary: seen) (auto split: if_splits)

lemma keep_firsts_subseq: "subseq (keep_firsts key seen items) items"
  by (induction items arbitrary: seen) auto

lemma keep_firsts_distinct:
  "distinct (map (\<lambda>c. hash_key (dict_get c key JNull)) (keep_firsts key seen items))"
  by (induction items arbitrary: seen) (auto dest: keep_firsts_member)

lemma keep_firsts_idem:
  "keep_firsts key seen (keep_firsts key seen items) = keep_firsts key seen items"
proof (induction items arbitrary: seen)
  case Nil
  then show ?case by simp
next
  case (Cons it items)
  then show ?case by simp
qed

lemma hash_key_null: "hash_key v = JNull \<longleftrightarrow> v = JNull"
  by (cases v) auto

lemma keep_firsts_seen:
  "hash_key (dict_get it key JNull) \<in> seen \<Longrightarrow>
   filter (same_key key it) (keep_firsts key seen items) = []"
  by (auto simp: filter_empty_conv same_key_def dest: keep_firsts_member)

lemma keep_firsts_first:
  "dict_get it key JNull \<noteq> JNull \<Longrightarrow> hash_key (dict_get it key JNull) \<notin> seen \<Longrightarrow>
   find (same_key key it) items = Some x \<Longrightarrow>
   filter (same_key key it) (keep_firsts key seen items) = [x]"
proof (induction items arbitrary: seen)
  case Nil
  then show ?case by simp
next
  case (Cons c items)
  show ?case
  proof (cases "same_key key it c")
    case True
    with Cons.prems have x: "x = c" by simp
    from True have eq: "hash_key (dict_get c key JNull) = hash_key (dict_get it key JNull)"
      by (simp add: same_key_def)
    with Cons.prems(1) have nn: "dict_get c key JNull \<noteq> JNull"
      by (metis hash_key_null)
    have "filter (same_key key it)
            (keep_firsts key (insert (hash_key (dict_get c key JNull)) seen) items) = []"
      by (rule keep_firsts_seen) (simp add: eq)
    with True nn eq Cons.prems(2) x show ?thesis by simp
  next
    case False
    with Cons.prems have f: "find (same_key key it) items = Some x" by simp
    from False have ne: "hash_key (dict_get c key JNull) \<noteq> hash_key (dict_get it key JNull)"
      by (simp add: same_key_def)
    with Cons.prems(2)
    have "hash_key (dict_get it key JNull) \<notin> insert (hash_key (dict_get c key JNull)) seen"
      by auto
    from Cons.IH [OF Cons.prems(1) this f] Cons.IH [OF Cons.prems(1,2) f] False
    show ?thesis by simp
  qed
qed


text \<open>
  C6: in detailed mode with deduplication enabled (ids being strings, numbers or absent),
  the records kept are a subsequence of the input in which no id occurs twice, and of the
  records that share an id only the first one of the input is kept. With deduplication
  disabled the records pass through unchanged.
\<close>

theorem detailed_dedupe_first_wins:
  assumes "arg_data_format a = ''detailed''"
  shows "(arg_dedupe a \<and> (\<forall>it\<in>set comments. hashable (dict_get it ''id'' JNull)) \<longrightarrow>
           (\<exists>r. main_comments a comments = Inr r \<and> subseq r comments
              \<and> distinct (map (\<lambda>c. hash_key (dict_get c ''id'' JNull)) r)
              \<and> (\<forall>it\<in>set comments. dict_get it ''id'' JNull \<noteq> JNull \<longrightarrow>
                   (\<exists>x. find (same_key ''id'' it) comments = Some x
                      \<and> filter (same_key ''id'' it) r = [x]))))
         \<and> (\<not> arg_dedupe a \<longrightarrow> main_comments a comments = Inr comments)"
proof (intro conjI impI)
  assume "\<not> arg_dedupe a"
  with assms show "main_comments a comments = Inr comments" by (simp add: main_comments_def)
next
  assume h: "arg_dedupe a \<and> (\<forall>it\<in>set comments. hashable (dict_get it ''id'' JNull))"
  let ?r = "keep_firsts ''id'' {} comments"
  from h assms have run: "main_comments a comments = Inr ?r"
    by (simp add: main_comments_def dedupe_by_key_Inr_iff)
  have first: "\<exists>x. find (same_key ''id'' it) comments = Some x
                  \<and> filter (same_key ''id'' it) ?r = [x]"
    if "it \<in> set comments" "dict_get it ''id'' JNull \<noteq> JNull" for it
  proof -
    from that(1) have "\<exists>c\<in>set comments. same_key ''id'' it c"
      by (auto simp: same_key_def)
    then obtain x where x: "find (same_key ''id'' it) comments = Some x"
      by (cases "find (same_key ''id'' it) comments") (auto simp: find_None_iff)
    from keep_firsts_first [OF that(2) _ x, of "{}"] x show ?thesis by simp
  qed
  from run first keep_firsts_subseq [of "''id''" "{}" comments]
    keep_firsts_distinct [of "''id''" "{}" comments]
  show "\<exists>r. main_comments a comments = Inr r \<and> subseq r comments
          \<and> distinct (map (\<lambda>c. hash_key (dict_get c ''id'' JNull)) r)
          \<and> (\<forall>it\<in>set comments. dict_get it ''id'' JNull \<noteq> JNull \<longrightarrow>
               (\<exists>x. find (same_key ''id'' it) comments = Some x
                  \<and> filter (same_key ''id'' it) r = [x]))"
    by blast
qed

theorem detailed_dedupe_first_wins_witness:
  "arg_data_format (example_args ''detailed'' True) = ''detailed''
   \<and> arg_dedupe (example_args ''detailed'' True)
   \<and> list_all (\<lambda>it. hashable (dict_get it ''id'' JNull)) repeated_items
   \<and> main_comments (example_args ''detailed'' True) repeated_items
     = Inr [comment_item ''1'' ''ann'' (JInt 3), comment_item ''2'' ''bob'' (JInt 4)]
   \<and> find (same_key ''id'' (comment_item ''1'' ''zed'' (JInt 9))) repeated_items
     = Some (comment_item ''1'' ''ann'' (JInt 3))
   \<and> filter (same_key ''id'' (comment_item ''1'' ''zed'' (JInt 9)))
        [comment_item ''1'' ''ann'' (JInt 3), comment_item ''2'' ''bob'' (JInt 4)]
     = [comment_item ''1'' ''ann'' (JInt 3)]
   \<and> arg_data_format (example_args ''detailed'' False) = ''detailed''
   \<and> \<not> arg_dedupe (example_args ''detailed'' False)
   \<and> main_comments (example_args ''detailed'' False) repeated_items = Inr repeated_items"
proof -
  let ?a = "example_args ''detailed'' True" and ?b = "example_args ''detailed'' False"
  let ?zed = "comment_item ''1'' ''zed'' (JInt 9)"
  let ?kept = "[comment_item ''1'' ''ann'' (JInt 3), comment_item ''2'' ''bob'' (JInt 4)]"
  have fmt: "arg_data_format ?a = ''detailed''" "arg_data_format ?b = ''detailed''"
    by (simp_all add: example_args_def)
  have dd: "arg_dedupe ?a" "\<not> arg_dedupe ?b" by (simp_all add: example_args_def)
  have hash: "\<forall>it\<in>set repeated_items. hashable (dict_get it ''id'' JNull)"
    by (simp add: repeated_items_def comment_item_def dict_get_def)
  have val: "main_comments ?a repeated_items = Inr ?kept"
    by (simp add: main_comments_def dedupe_by_key_def example_args_def repeated_items_def
        comment_item_def dict_get_def)
  have zed: "?zed \<in> set repeated_items" "dict_get ?zed ''id'' JNull \<noteq> JNull"
    by (simp_all add: repeated_items_def comment_item_def dict_get_def)
  have found: "find (same_key ''id'' ?zed) repeated_items
     = Some (comment_item ''1'' ''ann'' (JInt 3))"
    by (simp add: same_key_def repeated_items_def comment_item_def dict_get_def)
  from detailed_dedupe_first_wins [OF fmt(1), of repeated_items] dd(1) hash
  obtain r where r: "main_comments ?a repeated_items = Inr r"
    "\<forall>it\<in>set repeated_items. dict_get it ''id'' JNull \<noteq> JNull \<longrightarrow>
       (\<exists>x. find (same_key ''id'' it) repeated_items = Some x
          \<and> filter (same_key ''id'' it) r = [x])"
    by blast
  from r(1) val have eq: "r = ?kept" by simp
  from r(2) zed obtain x where x: "find (same_key ''id'' ?zed) repeated_items = Some x"
    "filter (same_key ''id'' ?zed) r = [x]"
    by blast
  from x(1) found have "x = comment_item ''1'' ''ann'' (JInt 3)" by simp
  with x(2) eq
  have kept: "filter (same_key ''id'' ?zed) ?kept = [comment_item ''1'' ''ann'' (JInt 3)]"
    by simp
  from detailed_dedupe_first_wins [OF fmt(2), of repeated_items] dd(2)
  have same: "main_comments ?b repeated_items = Inr repeated_items" by blast
  from fmt dd hash val found kept same show ?thesis by (simp add: list_all_iff)
qed

text \<open>
  C7: deduplication by \<open>id\<close> is idempotent: applied to its own result it returns that
  result.
\<close>

theorem dedupe_by_key_idempotent:
  assumes "dedupe_by_key items ''id'' = Inr r"
  shows "dedupe_by_key r ''id'' = Inr r"
proof -
  from assms have r: "r = keep_firsts ''id'' {} items"
    and h: "\<forall>it\<in>set items. hashable (dict_get it ''id'' JNull)"
    by (simp_all add: dedupe_by_key_Inr_iff)
  from h have "\<forall>it\<in>set r. hashable (dict_get it ''id'' JNull)"
    unfolding r by (auto dest: keep_firsts_member)
  then show ?thesis
    by (simp add: dedupe_by_key_Inr_iff r keep_firsts_idem)
qed

theorem dedupe_by_key_idempotent_witness:
  "dedupe_by_key repeated_items ''id''
     = Inr [comment_item ''1'' ''ann'' (JInt 3), comment_item ''2'' ''bob'' (JInt 4)]
   \<and> dedupe_by_key [comment_item ''1'' ''ann'' (JInt 3), comment_item ''2'' ''bob'' (JInt 4)] ''id''
     = Inr [comment_item ''1'' ''ann'' (JInt 3), comment_item ''2'' ''bob'' (JInt 4)]"
proof -
  have once: "dedupe_by_key repeated_items ''id''
     = Inr [comment_item ''1'' ''ann'' (JInt 3), comment_item ''2'' ''bob'' (JInt 4)]"
    by (simp add: dedupe_by_key_def repeated_items_def comment_item_def dict_get_def)
  from dedupe_by_key_idempotent [OF once] once show ?thesis by simp
qed

text \<open>
  C10: \<open>dedupe_by_key\<close> keeps no record whose value under the key is \<open>None\<close>. In detailed
  mode with deduplication enabled a record without an id is therefore not in the output,
  and with deduplication disabled it is.
\<close>

theorem dedupe_drops_missing_id:
  assumes "arg_data_format a = ''detailed''" and "c \<in> set comments"
    and "dict_get c ''id'' JNull = JNull"
  shows "(\<forall>items key r. dedupe_by_key items key = Inr r \<longrightarrow>
            (\<forall>it\<in>set r. dict_get it key JNull \<noteq> JNull))
         \<and> (arg_dedupe a \<longrightarrow> (\<forall>r. main_comments a comments = Inr r \<longrightarrow> c \<notin> set r))
         \<and> (arg_dedupe a \<and> (\<forall>it\<in>set comments. hashable (dict_get it ''id'' JNull)) \<longrightarrow>
              (\<exists>r. main_comments a comments = Inr r))
         \<and> (\<not> arg_dedupe a \<longrightarrow> (\<exists>r. main_comments a comments = Inr r \<and> c \<in> set r))"
proof -
  have drop: "\<forall>it\<in>set r. dict_get it key JNull \<noteq> JNull"
    if "dedupe_by_key items key = Inr r" for items key r
    using that by (auto simp: dedupe_by_key_Inr_iff dest: keep_firsts_member)
  have "c \<notin> set r" if "arg_dedupe a" "main_comments a comments = Inr r" for r
  proof -
    from that assms(1) have "dedupe_by_key comments ''id'' = Inr r"
      by (simp add: main_comments_def)
    from drop [OF this] assms(3) show ?thesis by auto
  qed
  moreover have "\<exists>r. main_comments a comments = Inr r"
    if "arg_dedupe a \<and> (\<forall>it\<in>set comments. hashable (dict_get it ''id'' JNull))"
    using that assms(1) by (simp add: main_comments_def dedupe_by_key_Inr_iff)
  moreover have "\<exists>r. main_comments a comments = Inr r \<and> c \<in> set r" if "\<not> arg_dedupe a"
    using that assms(1,2) by (simp add: main_comments_def)
  ultimately show ?thesis using drop by blast
qed

theorem dedupe_drops_missing_id_witness:
  "arg_data_format (example_args ''detailed'' True) = ''detailed''
   \<and> no_id_item \<in> set (no_id_item # repeated_items)
   \<and> dict_get no_id_item ''id'' JNull = JNull
   \<and> arg_dedupe (example_args ''detailed'' True)
   \<and> main_comments (example_args ''detailed'' True) (no_id_item # repeated_items)
     = Inr [comment_item ''1'' ''ann'' (JInt 3), comment_item ''2'' ''bob'' (JInt 4)]
   \<and> no_id_item \<notin> set [comment_item ''1'' ''ann'' (JInt 3), comment_item ''2'' ''bob'' (JInt 4)]
   \<and> \<not> arg_dedupe (example_args ''detailed'' False)
   \<and> main_comments (example_args ''detailed'' False) (no_id_item # repeated_items)
     = Inr (no_id_item # repeated_items)"
proof -
  let ?a = "example_args ''detailed'' True" and ?b = "example_args ''detailed'' False"
  let ?kept = "[comment_item ''1'' ''ann'' (JInt 3), comment_item ''2'' ''bob'' (JInt 4)]"
  have fmt: "arg_data_format ?a = ''detailed''" "arg_data_format ?b = ''detailed''"
    by (simp_all add: example_args_def)
  have dd: "arg_dedupe ?a" "\<not> arg_dedupe ?b" by (simp_all add: example_args_def)
  have mem: "no_id_item \<in> set (no_id_item # repeated_items)" by simp
  have noid: "dict_get no_id_item ''id'' JNull = JNull"
    by (simp add: no_id_item_def dict_get_def)
  have val: "main_comments ?a (no_id_item # repeated_items) = Inr ?kept"
    by (simp add: main_comments_def dedupe_by_key_def example_args_def repeated_items_def
        no_id_item_def comment_item_def dict_get_def)
  from dedupe_drops_missing_id [OF fmt(1) mem noid] dd(1) val
  have gone: "no_id_item \<notin> set ?kept" by blast
  have off: "main_comments ?b (no_id_item # repeated_items) = Inr (no_id_item # repeated_items)"
    by (simp add: main_comments_def example_args_def)
  from fmt dd mem noid val gone off show ?thesis by simp
qed

section \<open>The username projection\<close>











section \<open>The detailed CSV file\<close>

lemma replace_newline_none: "CHR 0x0A \<notin> set (replace_newline s)"
  by (auto simp: replace_newline_def)

lemma replace_newline_length: "length (replace_newline s) = length s"
  by (simp add: replace_newline_def)

lemma replace_newline_nth:
  "j < length s \<Longrightarrow> replace_newline s ! j = (if s ! j = CHR 0x0A then CHR 0x20 else s ! j)"
  by (simp add: replace_newline_def)

lemma str_strip_subset: "set (str_strip s) \<subseteq> set s"
proof -
  have "set (dropWhile is_space (rev (dropWhile is_space s))) \<subseteq> set (rev (dropWhile is_space s))"
    by (rule set_dropWhileD [THEN subsetI])
  also have "\<dots> \<subseteq> set s" using set_dropWhileD [of _ is_space s] by auto
  finally show ?thesis by (simp add: str_strip_def)
qed

lemma str_strip_split:
  "\<exists>pre post. s = pre @ str_strip s @ post \<and> list_all is_space pre \<and> list_all is_space post"
proof -
  let ?pre = "takeWhile is_space s" and ?mid = "dropWhile is_space s"
  let ?post = "rev (takeWhile is_space (rev ?mid))"
  have "rev (takeWhile is_space (rev ?mid) @ dropWhile is_space (rev ?mid)) = ?mid"
    by (simp only: takeWhile_dropWhile_id rev_rev_ident)
  then have mid: "?mid = str_strip s @ ?post"
    by (simp only: rev_append str_strip_def)
  have "s = ?pre @ ?mid" by simp
  with mid have "s = ?pre @ str_strip s @ ?post" by simp
  moreover have "list_all is_space ?pre"
    by (simp add: list_all_iff) (metis set_takeWhileD)
  moreover have "list_all is_space ?post"
    by (simp add: list_all_iff) (metis set_takeWhileD)
  ultimately show ?thesis by blast
qed

lemma str_strip_ends:
  "str_strip s = [] \<or> (\<not> is_space (hd (str_strip s)) \<and> \<not> is_space (last (str_strip s)))"
proof (cases "str_strip s = []")
  case True
  then show ?thesis by simp
next
  case False
  let ?d = "dropWhile is_space s"
  let ?r = "dropWhile is_space (rev ?d)"
  from False have r: "?r \<noteq> []" by (simp add: str_strip_def)
  then have "\<not> is_space (hd ?r)" by (rule hd_dropWhile)
  with r have last: "\<not> is_space (last (str_strip s))"
    by (simp add: str_strip_def last_rev)
  have d: "?d \<noteq> []"
  proof
    assume e: "?d = []"
    have "?r = []" unfolding e by simp
    with r show False by contradiction
  qed
  then have hd_d: "\<not> is_space (hd ?d)" by (rule hd_dropWhile)
  from d hd_d have "\<not> is_space (last (rev ?d))" by (simp add: last_rev)
  then have "last ?r = last (rev ?d)" using r
    by (metis dropWhile_eq_Nil_conv last_appendR takeWhile_dropWhile_id)
  then have "hd (str_strip s) = hd ?d" using r d
    by (simp add: str_strip_def hd_rev last_rev)
  with hd_d last show ?thesis by simp
qed

lemma csv_rows_Inr:
  "csv_rows comments rows = Inr out \<Longrightarrow>
   length out = length rows + length comments \<and> take (length rows) out = rows
   \<and> (\<forall>i<length comments. csv_row (comments ! i) = Inr (out ! (length rows + i)))"
proof (induction comments arbitrary: rows)
  case Nil
  then show ?case by simp
next
  case (Cons c comments)
  from Cons.prems obtain row where row: "csv_row c = Inr row"
    and rest: "csv_rows comments (rows @ [row]) = Inr out"
    by (auto split: sum.splits)
  from Cons.IH [OF rest] have len: "length out = length rows + 1 + length comments"
    and tk: "take (length rows + 1) out = rows @ [row]"
    and nth: "\<forall>i<length comments. csv_row (comments ! i) = Inr (out ! (length rows + 1 + i))"
    by simp_all
  from tk have "take (length rows) (take (length rows + 1) out) = take (length rows) (rows @ [row])"
    by simp
  then have tk': "take (length rows) out = rows" by simp
  from tk len have "out ! length rows = (rows @ [row]) ! length rows"
    by (metis less_add_one nth_take)
  then have here: "out ! length rows = row" by simp
  have "csv_row ((c # comments) ! i) = Inr (out ! (length rows + i))"
    if "i < length (c # comments)" for i
  proof (cases i)
    case 0
    with row here show ?thesis by simp
  next
    case (Suc j)
    with that nth show ?thesis by simp
  qed
  with len tk' show ?case by simp
qed

lemma csv_rows_returns:
  "\<forall>c\<in>set comments. \<exists>row. csv_row c = Inr row \<Longrightarrow> \<exists>out. csv_rows comments rows = Inr out"
proof (induction comments arbitrary: rows)
  case Nil
  then show ?case by simp
next
  case (Cons c comments)
  from Cons.prems obtain row where "csv_row c = Inr row" by auto
  with Cons.IH [of "rows @ [row]"] Cons.prems show ?case by simp
qed

lemma csv_row_returns:
  assumes "\<not> truthy (dict_get c ''text'' JNull) \<or> (\<exists>s. dict_get c ''text'' JNull = JStr s)"
  shows "\<exists>row. csv_row c = Inr row"
  using assms by (auto simp: csv_row_def py_or_def)

lemma csv_row_Inr:
  assumes "csv_row c = Inr row"
  shows "row = [dict_get c ''id'' JNull, dict_get c ''username'' JNull,
                JStr (str_strip (replace_newline
                       (case dict_get c ''text'' JNull of JStr s \<Rightarrow> s | _ \<Rightarrow> []))),
                dict_get c ''like_count'' JNull, dict_get c ''created_at'' JNull,
                JInt (case dict_get c ''replies'' JNull of JList rs \<Rightarrow> int (length rs) | _ \<Rightarrow> 0)]"
proof (cases "truthy (dict_get c ''text'' JNull)")
  case True
  with assms obtain s where "dict_get c ''text'' JNull = JStr s"
    by (cases "dict_get c ''text'' JNull") (simp_all add: csv_row_def py_or_def)
  with True assms show ?thesis by (auto simp: csv_row_def py_or_def reply_count_def)
next
  case False
  then have "str_strip (replace_newline
               (case dict_get c ''text'' JNull of JStr s \<Rightarrow> s | _ \<Rightarrow> [])) = []"
    by (cases "dict_get c ''text'' JNull") (simp_all add: str_strip_def replace_newline_def)
  with False assms show ?thesis
    by (auto simp: csv_row_def py_or_def reply_count_def str_strip_def replace_newline_def)
qed

text \<open>
  C9: the detailed CSV file has the header row and one row per record. The text cell of
  a record's row is its text (the empty string when the text is absent) with every
  newline replaced by a space and then stripped: it is what remains of the replaced text
  between a leading and a trailing run of whitespace, it neither starts nor ends with
  whitespace and holds no newline. The last cell is the length of the record's replies
  list, or 0 when the record has none. The file is written whenever the texts are
  strings or absent.
\<close>

theorem csv_text_and_reply_count:
  "((\<forall>c\<in>set comments. \<not> truthy (dict_get c ''text'' JNull)
        \<or> (\<exists>s. dict_get c ''text'' JNull = JStr s)) \<longrightarrow>
      (\<exists>rows. write_output Writable ''detailed'' ''csv'' comments us = Inr (CsvFile rows)))
   \<and> (\<forall>rows i. write_output Writable ''detailed'' ''csv'' comments us = Inr (CsvFile rows)
          \<and> i < length comments \<longrightarrow>
        (let c = comments ! i;
             row = rows ! Suc i;
             s = (case dict_get c ''text'' JNull of JStr x \<Rightarrow> x | _ \<Rightarrow> []);
             t = str_strip (replace_newline s)
         in rows ! 0 = csv_header \<and> length rows = Suc (length comments)
            \<and> row = [dict_get c ''id'' JNull, dict_get c ''username'' JNull, JStr t,
                      dict_get c ''like_count'' JNull, dict_get c ''created_at'' JNull,
                      JInt (case dict_get c ''replies'' JNull of
                              JList rs \<Rightarrow> int (length rs) | _ \<Rightarrow> 0)]
            \<and> length (replace_newline s) = length s
            \<and> (\<forall>j<length s. replace_newline s ! j
                                = (if s ! j = CHR 0x0A then CHR 0x20 else s ! j))
            \<and> (\<exists>pre post. replace_newline s = pre @ t @ post
                  \<and> list_all is_space pre \<and> list_all is_space post)
            \<and> (t = [] \<or> (\<not> is_space (hd t) \<and> \<not> is_space (last t)))
            \<and> CHR 0x0A \<notin> set t))"
proof (intro conjI allI impI)
  assume "\<forall>c\<in>set comments. \<not> truthy (dict_get c ''text'' JNull)
            \<or> (\<exists>s. dict_get c ''text'' JNull = JStr s)"
  then have "\<forall>c\<in>set comments. \<exists>row. csv_row c = Inr row"
    using csv_row_returns by blast
  from csv_rows_returns [OF this, of "[csv_header]"]
  show "\<exists>rows. write_output Writable ''detailed'' ''csv'' comments us = Inr (CsvFile rows)"
    by (auto simp: write_output_def)
next
  fix rows i
  assume h: "write_output Writable ''detailed'' ''csv'' comments us = Inr (CsvFile rows)
             \<and> i < length comments"
  then have run: "csv_rows comments [csv_header] = Inr rows"
    by (auto simp: write_output_def split: sum.splits)
  from csv_rows_Inr [OF run] h
  have len: "length rows = Suc (length comments)"
    and hd: "take 1 rows = [csv_header]"
    and row: "csv_row (comments ! i) = Inr (rows ! Suc i)"
    by simp_all
  from hd len have first: "rows ! 0 = csv_header"
    by (cases rows) simp_all
  let ?s = "case dict_get (comments ! i) ''text'' JNull of JStr x \<Rightarrow> x | _ \<Rightarrow> []"
  let ?t = "str_strip (replace_newline ?s)"
  have "set ?t \<subseteq> set (replace_newline ?s)" by (rule str_strip_subset)
  with replace_newline_none [of ?s] have nl: "CHR 0x0A \<notin> set ?t" by blast
  from first len csv_row_Inr [OF row] replace_newline_length [of ?s]
    replace_newline_nth [of _ ?s] str_strip_split [of "replace_newline ?s"]
    str_strip_ends [of "replace_newline ?s"] nl
  show "let c = comments ! i;
             row = rows ! Suc i;
             s = (case dict_get c ''text'' JNull of JStr x \<Rightarrow> x | _ \<Rightarrow> []);
             t = str_strip (replace_newline s)
         in rows ! 0 = csv_header \<and> length rows = Suc (length comments)
            \<and> row = [dict_get c ''id'' JNull, dict_get c ''username'' JNull, JStr t,
                      dict_get c ''like_count'' JNull, dict_get c ''created_at'' JNull,
                      JInt (case dict_get c ''replies'' JNull of
                              JList rs \<Rightarrow> int (length rs) | _ \<Rightarrow> 0)]
            \<and> length (replace_newline s) = length s
            \<and> (\<forall>j<length s. replace_newline s ! j
                                = (if s ! j = CHR 0x0A then CHR 0x20 else s ! j))
            \<and> (\<exists>pre post. replace_newline s = pre @ t @ post
                  \<and> list_all is_space pre \<and> list_all is_space post)
            \<and> (t = [] \<or> (\<not> is_space (hd t) \<and> \<not> is_space (last t)))
            \<and> CHR 0x0A \<notin> set t"
    unfolding Let_def by blast
qed

theorem csv_text_and_reply_count_witness:
  "write_output Writable ''detailed'' ''csv'' [newline_item, no_text_item] None
     = Inr (CsvFile example_rows)
   \<and> (0 :: nat) < length [newline_item, no_text_item]
   \<and> dict_get newline_item ''text'' JNull = JStr (''hello'' @ [CHR 0x0A] @ ''world '')
   \<and> dict_get newline_item ''replies'' JNull
     = JList [JObj [(''id'', JStr ''10'')], JObj [(''id'', JStr ''11'')]]
   \<and> example_rows ! Suc 0
     = [JStr ''9'', JStr ''ann'',
        JStr (str_strip (replace_newline (''hello'' @ [CHR 0x0A] @ ''world ''))),
        JInt 2, JInt 1700000000, JInt 2]
   \<and> str_strip (replace_newline (''hello'' @ [CHR 0x0A] @ ''world '')) = ''hello world''
   \<and> CHR 0x0A \<notin> set (str_strip (replace_newline (''hello'' @ [CHR 0x0A] @ ''world '')))
   \<and> dict_get no_text_item ''text'' JNull = JNull
   \<and> example_rows ! Suc 1 = [JStr ''12'', JStr ''bob'', JStr [], JNull, JNull, JInt 0]"
proof -
  let ?cs = "[newline_item, no_text_item]"
  let ?txt = "''hello'' @ [CHR 0x0A] @ ''world ''"
  have run: "write_output Writable ''detailed'' ''csv'' ?cs None = Inr (CsvFile example_rows)"
    by code_simp
  have i: "(0 :: nat) < length ?cs" by simp
  have body_text: "dict_get newline_item ''text'' JNull = JStr ?txt"
    by (simp add: newline_item_def dict_get_def)
  have fields: "dict_get newline_item ''id'' JNull = JStr ''9''"
    "dict_get newline_item ''username'' JNull = JStr ''ann''"
    "dict_get newline_item ''like_count'' JNull = JInt 2"
    "dict_get newline_item ''created_at'' JNull = JInt 1700000000"
    "dict_get newline_item ''replies'' JNull
       = JList [JObj [(''id'', JStr ''10'')], JObj [(''id'', JStr ''11'')]]"
    by (simp_all add: newline_item_def dict_get_def)
  from csv_text_and_reply_count [of ?cs None] run i
  have "let c = ?cs ! 0;
            row = example_rows ! Suc 0;
            s = (case dict_get c ''text'' JNull of JStr x \<Rightarrow> x | _ \<Rightarrow> []);
            t = str_strip (replace_newline s)
        in row = [dict_get c ''id'' JNull, dict_get c ''username'' JNull, JStr t,
                  dict_get c ''like_count'' JNull, dict_get c ''created_at'' JNull,
                  JInt (case dict_get c ''replies'' JNull of
                          JList rs \<Rightarrow> int (length rs) | _ \<Rightarrow> 0)]
           \<and> CHR 0x0A \<notin> set t"
    unfolding Let_def by blast
  then have row: "example_rows ! Suc 0
     = [JStr ''9'', JStr ''ann'', JStr (str_strip (replace_newline ?txt)),
        JInt 2, JInt 1700000000, JInt 2]"
    and nl: "CHR 0x0A \<notin> set (str_strip (replace_newline ?txt))"
    unfolding Let_def by (simp_all add: body_text fields)
  have cell: "str_strip (replace_newline ?txt) = ''hello world''" by code_simp
  have none: "dict_get no_text_item ''text'' JNull = JNull"
    by (simp add: no_text_item_def dict_get_def)
  have row2: "example_rows ! Suc 1 = [JStr ''12'', JStr ''bob'', JStr [], JNull, JNull, JInt 0]"
    by (simp add: example_rows_def)
  show ?thesis by (intro conjI run i body_text fields(5) row cell nl none row2)
qed


section \<open>Exit statuses\<close>

lemma graphql_request_exit:
  "graphql_request srv reqs = Inl (SystemExit n) \<Longrightarrow>
   n = 1 \<and> (\<exists>st body. srv reqs = Response st body \<and> (st \<noteq> 200 \<or> body = None))"
  by (auto simp: graphql_request_def split: response.splits if_splits option.splits)

lemma graphql_request_failure:
  "srv reqs = Response st body \<Longrightarrow> st \<noteq> 200 \<or> body = None \<Longrightarrow>
   graphql_request srv reqs = Inl (SystemExit 1)"
  by (auto simp: graphql_request_def)

lemma fetch_step_exit:
  assumes "fetch_step srv p st = Return reqs (Inl (SystemExit n))"
  shows "n = 1 \<and> (\<exists>st body. srv reqs = Response st body \<and> (st \<noteq> 200 \<or> body = None))"
proof -
  obtain rs cursor rq where st: "st = (rs, cursor, rq)" by (cases st)
  let ?reqs = "rq @ [request_variables p cursor]"
  show ?thesis
  proof (cases "graphql_request srv ?reqs")
    case (Inl x)
    with assms st have "reqs = ?reqs" "x = SystemExit n" by (simp_all add: fetch_step_def)
    with Inl graphql_request_exit [of srv ?reqs n] show ?thesis by simp
  next
    case (Inr data)
    have False
    proof (cases "try_page data (include_replies p) (max_comments p) (min_likes p) rs")
      case (Raised x rs')
      from try_page_exn [OF this] Raised Inr assms st show False
        by (auto simp: fetch_step_def Let_def split: if_splits)
    next
      case (Break rs')
      with Inr assms st show False by (simp add: fetch_step_def)
    next
      case (Completed rs' ei)
      with Inr assms st show False
        by (auto simp: fetch_step_def Let_def split: sum.splits if_splits dest: py_get_exn)
    qed
    then show ?thesis ..
  qed
qed

lemma fetch_parent_comments_exit:
  assumes "fetch_parent_comments srv p = Some (reqs, Inl (SystemExit n))"
  shows "n = 1 \<and> (\<exists>st body. srv reqs = Response st body \<and> (st \<noteq> 200 \<or> body = None))"
proof -
  from assms have run: "fetch_loop srv p ([], JNull, []) = Some (reqs, Inl (SystemExit n))"
    by (simp add: fetch_parent_comments_def)
  have "\<forall>k. snd (reqs, Inl (SystemExit n) :: py_exn + dict list) = Inl (SystemExit k) \<longrightarrow>
          k = 1 \<and> (\<exists>st body. srv (fst (reqs, Inl (SystemExit n) :: py_exn + dict list))
                       = Response st body \<and> (st \<noteq> 200 \<or> body = None))"
  proof (rule fetch_loop_rule [OF run,
        where I = "\<lambda>s. True"
          and Q = "\<lambda>y. \<forall>k. snd y = Inl (SystemExit k) \<longrightarrow>
                    k = 1 \<and> (\<exists>st body. srv (fst y) = Response st body
                               \<and> (st \<noteq> 200 \<or> body = None))"])
    show True ..
  next
    fix s a r
    assume "fetch_step srv p s = Return a r"
    then show "\<forall>k. snd (a, r) = Inl (SystemExit k) \<longrightarrow>
                k = 1 \<and> (\<exists>st body. srv (fst (a, r)) = Response st body
                           \<and> (st \<noteq> 200 \<or> body = None))"
      using fetch_step_exit [of srv p s a] by auto
  next
    show True ..
  qed
  then show ?thesis by simp
qed

lemma fetch_loop_transport_failure:
  assumes "srv (reqs @ [request_variables p cursor]) = Response st body"
    and "st \<noteq> 200 \<or> body = None"
  shows "fetch_loop srv p (results, cursor, reqs)
           = Some (reqs @ [request_variables p cursor], Inl (SystemExit 1))"
proof -
  from graphql_request_failure
    [where srv = srv and reqs = "reqs @ [request_variables p cursor]", OF assms]
  have "fetch_step srv p (results, cursor, reqs)
          = Return (reqs @ [request_variables p cursor]) (Inl (SystemExit 1))"
    by (simp add: fetch_step_def)
  then show ?thesis by (rule fetch_loop_Return)
qed

lemma write_output_fails:
  assumes "fs \<noteq> Writable" and "main_usernames_payload a comments = Inr payload"
  shows "write_output fs (arg_data_format a) ff comments payload = Inl OSError"
proof (cases "arg_data_format a = ''usernames''")
  case True
  with assms(2) obtain us where "payload = Some us"
    by (auto simp: main_usernames_payload_def split: sum.splits)
  with True assms(1) show ?thesis by (cases fs) (simp_all add: write_output_def)
next
  case False
  with assms(1) show ?thesis by (cases fs) (simp_all add: write_output_def)
qed

lemma validate_env_missing:
  "validate_env env = Inl (SystemExit 2) \<longleftrightarrow>
   (SESSIONID env = None \<or> SESSIONID env = Some [] \<or> DS_USER_ID env = None
    \<or> DS_USER_ID env = Some [] \<or> CSRFTOKEN env = None \<or> CSRFTOKEN env = Some []
    \<or> MID env = None \<or> MID env = Some [])"
  by (auto simp: validate_env_def Let_def)

lemma validate_env_cases: "validate_env env = Inl (SystemExit 2) \<or> validate_env env = Inr ()"
  by (simp add: validate_env_def Let_def)

text \<open>
  C5, as the code has it: an invalid URL and a missing credential end the run with
  status 2; a response with a status other than 200 or with a body that is not JSON
  (the only way the fetch raises \<open>SystemExit\<close>) and a failure to write the output both
  end it with status 1.
\<close>

theorem exit_status_by_class:
  "(main_url a stdin = Inr url \<and> extract_media url = None \<longrightarrow>
      main a env stdin srv fs = Some (Exit 2))
   \<and> (main_url a stdin = Inr url \<and> extract_media url = Some (mt, code)
        \<and> (SESSIONID env = None \<or> SESSIONID env = Some [] \<or> DS_USER_ID env = None
            \<or> DS_USER_ID env = Some [] \<or> CSRFTOKEN env = None \<or> CSRFTOKEN env = Some []
            \<or> MID env = None \<or> MID env = Some []) \<longrightarrow>
      main a env stdin srv fs = Some (Exit 2))
   \<and> (main_url a stdin = Inr url \<and> extract_media url = Some (mt, code)
        \<and> validate_env env = Inr ()
        \<and> fetch_parent_comments srv (main_fetch_params a code)
            = Some (reqs, Inl (SystemExit n)) \<longrightarrow>
      main a env stdin srv fs = Some (Exit 1) \<and> n = 1
      \<and> (\<exists>st body. srv reqs = Response st body \<and> (st \<noteq> 200 \<or> body = None)))
   \<and> (main_url a stdin = Inr url \<and> extract_media url = Some (mt, code)
        \<and> validate_env env = Inr ()
        \<and> srv [request_variables (main_fetch_params a code) JNull] = Response status body
        \<and> (status \<noteq> 200 \<or> body = None) \<longrightarrow>
      main a env stdin srv fs = Some (Exit 1))
   \<and> (main_url a stdin = Inr url \<and> extract_media url = Some (mt, code)
        \<and> validate_env env = Inr ()
        \<and> fetch_parent_comments srv (main_fetch_params a code) = Some (reqs, Inr fetched)
        \<and> main_comments a fetched = Inr comments
        \<and> main_usernames_payload a comments = Inr payload
        \<and> fs \<noteq> Writable \<longrightarrow>
      main a env stdin srv fs = Some (Exit 1))"
proof -
  have invalid_url: "main_url a stdin = Inr url \<and> extract_media url = None \<longrightarrow>
      main a env stdin srv fs = Some (Exit 2)"
    by (simp add: main_def)
  have missing_env: "main_url a stdin = Inr url \<and> extract_media url = Some (mt, code)
        \<and> (SESSIONID env = None \<or> SESSIONID env = Some [] \<or> DS_USER_ID env = None
            \<or> DS_USER_ID env = Some [] \<or> CSRFTOKEN env = None \<or> CSRFTOKEN env = Some []
            \<or> MID env = None \<or> MID env = Some []) \<longrightarrow>
      main a env stdin srv fs = Some (Exit 2)"
  proof
    assume h: "main_url a stdin = Inr url \<and> extract_media url = Some (mt, code)
        \<and> (SESSIONID env = None \<or> SESSIONID env = Some [] \<or> DS_USER_ID env = None
            \<or> DS_USER_ID env = Some [] \<or> CSRFTOKEN env = None \<or> CSRFTOKEN env = Some []
            \<or> MID env = None \<or> MID env = Some [])"
    then have "validate_env env = Inl (SystemExit 2)" by (simp only: validate_env_missing)
    with h show "main a env stdin srv fs = Some (Exit 2)"
      by (simp add: main_def leave_def)
  qed
  have network: "main_url a stdin = Inr url \<and> extract_media url = Some (mt, code)
        \<and> validate_env env = Inr ()
        \<and> fetch_parent_comments srv (main_fetch_params a code)
            = Some (reqs, Inl (SystemExit n)) \<longrightarrow>
      main a env stdin srv fs = Some (Exit 1) \<and> n = 1
      \<and> (\<exists>st body. srv reqs = Response st body \<and> (st \<noteq> 200 \<or> body = None))"
  proof
    assume h: "main_url a stdin = Inr url \<and> extract_media url = Some (mt, code)
        \<and> validate_env env = Inr ()
        \<and> fetch_parent_comments srv (main_fetch_params a code)
            = Some (reqs, Inl (SystemExit n))"
    then have run: "fetch_parent_comments srv (main_fetch_params a code)
            = Some (reqs, Inl (SystemExit n))" by simp
    from fetch_parent_comments_exit [OF run]
    have n: "n = 1"
      and bad: "\<exists>st body. srv reqs = Response st body \<and> (st \<noteq> 200 \<or> body = None)"
      by simp_all
    from h n have "main a env stdin srv fs = Some (Exit 1)"
      by (simp add: main_def leave_def)
    with n bad show "main a env stdin srv fs = Some (Exit 1) \<and> n = 1
        \<and> (\<exists>st body. srv reqs = Response st body \<and> (st \<noteq> 200 \<or> body = None))"
      by simp
  qed
  have first_request_fails: "main_url a stdin = Inr url \<and> extract_media url = Some (mt, code)
        \<and> validate_env env = Inr ()
        \<and> srv [request_variables (main_fetch_params a code) JNull] = Response status body
        \<and> (status \<noteq> 200 \<or> body = None) \<longrightarrow>
      main a env stdin srv fs = Some (Exit 1)"
  proof
    assume h: "main_url a stdin = Inr url \<and> extract_media url = Some (mt, code)
        \<and> validate_env env = Inr ()
        \<and> srv [request_variables (main_fetch_params a code) JNull] = Response status body
        \<and> (status \<noteq> 200 \<or> body = None)"
    then have resp: "srv ([] @ [request_variables (main_fetch_params a code) JNull])
                       = Response status body"
      and bad: "status \<noteq> 200 \<or> body = None" by simp_all
    from fetch_loop_transport_failure
      [where srv = srv and reqs = "[]" and results = "[]", OF resp bad]
    have "fetch_parent_comments srv (main_fetch_params a code)
            = Some ([request_variables (main_fetch_params a code) JNull], Inl (SystemExit 1))"
      by (simp add: fetch_parent_comments_def)
    with h show "main a env stdin srv fs = Some (Exit 1)"
      by (simp add: main_def leave_def)
  qed
  have write_fails: "main_url a stdin = Inr url \<and> extract_media url = Some (mt, code)
        \<and> validate_env env = Inr ()
        \<and> fetch_parent_comments srv (main_fetch_params a code) = Some (reqs, Inr fetched)
        \<and> main_comments a fetched = Inr comments
        \<and> main_usernames_payload a comments = Inr payload
        \<and> fs \<noteq> Writable \<longrightarrow>
      main a env stdin srv fs = Some (Exit 1)"
  proof
    assume h: "main_url a stdin = Inr url \<and> extract_media url = Some (mt, code)
        \<and> validate_env env = Inr ()
        \<and> fetch_parent_comments srv (main_fetch_params a code) = Some (reqs, Inr fetched)
        \<and> main_comments a fetched = Inr comments
        \<and> main_usernames_payload a comments = Inr payload
        \<and> fs \<noteq> Writable"
    then have "write_output fs (arg_data_format a) (arg_file_format a) comments payload
                 = Inl OSError"
      by (intro write_output_fails) simp_all
    with h show "main a env stdin srv fs = Some (Exit 1)" by (simp add: main_def)
  qed
  show ?thesis
    by (intro conjI invalid_url missing_env network first_request_fails write_fails)
qed

theorem exit_status_by_class_witness:
  "main_url bad_url_args None = Inr ''https://example.com/p/Cx1/''
   \<and> extract_media ''https://example.com/p/Cx1/'' = None
   \<and> main bad_url_args example_env None failing_service Writable = Some (Exit 2)
   \<and> main_url (example_args ''detailed'' True) None = Inr ''https://www.instagram.com/p/Cx1/''
   \<and> extract_media ''https://www.instagram.com/p/Cx1/'' = Some (''p'', ''Cx1'')
   \<and> MID env_without_mid = None
   \<and> main (example_args ''detailed'' True) env_without_mid None failing_service Writable
     = Some (Exit 2)
   \<and> validate_env example_env = Inr ()
   \<and> fetch_parent_comments failing_service (main_fetch_params (example_args ''detailed'' True) ''Cx1'')
     = Some ([first_request], Inl (SystemExit 1))
   \<and> failing_service [first_request] = Response 500 None
   \<and> main (example_args ''detailed'' True) example_env None failing_service Writable
     = Some (Exit 1)
   \<and> fetch_parent_comments (same_page (page two_nodes False))
        (main_fetch_params (example_args ''detailed'' True) ''Cx1'')
     = Some ([first_request],
             Inr [comment_item ''1'' ''ann'' (JInt 3), comment_item ''2'' ''bob'' JNull])
   \<and> main (example_args ''detailed'' True) example_env None
        (same_page (page two_nodes False)) OpenFails
     = Some (Exit 1)
   \<and> main (example_args ''detailed'' True) example_env None
        (same_page (page two_nodes False)) MakedirsFails
     = Some (Exit 1)"
proof -
  let ?a = "example_args ''detailed'' True"
  let ?good = "same_page (page two_nodes False)"
  let ?items = "[comment_item ''1'' ''ann'' (JInt 3), comment_item ''2'' ''bob'' JNull]"
  have url1: "main_url bad_url_args None = Inr ''https://example.com/p/Cx1/''"
    by (simp add: main_url_def bad_url_args_def example_args_def)
  have no_media: "extract_media ''https://example.com/p/Cx1/'' = None" by code_simp
  have url2: "main_url ?a None = Inr ''https://www.instagram.com/p/Cx1/''"
    by (simp add: main_url_def example_args_def)
  have media: "extract_media ''https://www.instagram.com/p/Cx1/'' = Some (''p'', ''Cx1'')"
    by code_simp
  have mid: "MID env_without_mid = None" by (simp add: env_without_mid_def)
  have env: "validate_env example_env = Inr ()"
    by (simp add: validate_env_def example_env_def)
  have vars: "request_variables (main_fetch_params ?a ''Cx1'') JNull = first_request"
    by (simp add: request_variables_def main_fetch_params_def example_args_def first_request_def)
  have down: "fetch_parent_comments failing_service (main_fetch_params ?a ''Cx1'')
     = Some ([first_request], Inl (SystemExit 1))"
    by code_simp
  have resp: "failing_service [first_request] = Response 500 None"
    by (simp add: failing_service_def)
  have fetched: "fetch_parent_comments ?good (main_fetch_params ?a ''Cx1'')
     = Some ([first_request], Inr ?items)"
    by code_simp
  have kept: "main_comments ?a ?items = Inr ?items"
    by (simp add: main_comments_def dedupe_by_key_def example_args_def comment_item_def
        dict_get_def)
  have payload: "main_usernames_payload ?a ?items = Inr None"
    by (simp add: main_usernames_payload_def example_args_def)
  from exit_status_by_class
    [where a = bad_url_args and stdin = None and url = "''https://example.com/p/Cx1/''"
       and env = example_env and srv = failing_service and fs = Writable]
    url1 no_media
  have r1: "main bad_url_args example_env None failing_service Writable = Some (Exit 2)" by blast
  from exit_status_by_class
    [where a = ?a and stdin = None and url = "''https://www.instagram.com/p/Cx1/''"
       and mt = "''p''" and code = "''Cx1''" and env = env_without_mid
       and srv = failing_service and fs = Writable]
    url2 media mid
  have r2: "main ?a env_without_mid None failing_service Writable = Some (Exit 2)" by blast
  from exit_status_by_class
    [where a = ?a and stdin = None and url = "''https://www.instagram.com/p/Cx1/''"
       and mt = "''p''" and code = "''Cx1''" and env = example_env
       and srv = failing_service and fs = Writable and reqs = "[first_request]" and n = 1]
    url2 media env down
  have r3: "main ?a example_env None failing_service Writable = Some (Exit 1)" by blast
  from exit_status_by_class
    [where a = ?a and stdin = None and url = "''https://www.instagram.com/p/Cx1/''"
       and mt = "''p''" and code = "''Cx1''" and env = example_env
       and srv = ?good and fs = OpenFails and reqs = "[first_request]" and fetched = ?items
       and comments = ?items and payload = None]
    url2 media env fetched kept payload
  have r4: "main ?a example_env None ?good OpenFails = Some (Exit 1)" by blast
  from exit_status_by_class
    [where a = ?a and stdin = None and url = "''https://www.instagram.com/p/Cx1/''"
       and mt = "''p''" and code = "''Cx1''" and env = example_env
       and srv = ?good and fs = MakedirsFails and reqs = "[first_request]"
       and fetched = ?items and comments = ?items and payload = None]
    url2 media env fetched kept payload
  have r5: "main ?a example_env None ?good MakedirsFails = Some (Exit 1)" by blast
  show ?thesis
    by (intro conjI url1 no_media r1 url2 media mid r2 env down resp r3 fetched r4 r5)
qed

text \<open>
  C5 as stated fails: a transport failure (status 500, file system in order) and a
  write failure (service in order, file system failing) end the run with the same
  status 1.
\<close>

theorem exit_status_by_class_counterexample:
  "main (example_args ''detailed'' True) example_env None failing_service Writable
     = Some (Exit 1)
   \<and> main (example_args ''detailed'' True) example_env None
        (same_page (page two_nodes False)) OpenFails
     = Some (Exit 1)"
proof -
  have "main (example_args ''detailed'' True) example_env None failing_service Writable
     = Some (Exit 1)"
    by code_simp
  moreover have "main (example_args ''detailed'' True) example_env None
        (same_page (page two_nodes False)) OpenFails = Some (Exit 1)"
    by code_simp
  ultimately show ?thesis by (rule conjI)
qed


end
